theory Spec2Isabelle
  imports
    Complex_Main
    "HOL-Library.Char_ord"
    "HOL-Library.List_Lexorder"
    "HOL-Library.Product_Lexorder"
    "HOL-Library.Log_Nat"
    "HOL-Library.Multiset"
    "HOL-Library.Sublist"
begin

section \<open>Python strings\<close>

text \<open>
  A Python \<open>str\<close> is modelled as a \<open>string\<close>; one \<open>char\<close> is one code point, so the
  model covers documents over the code points 0 to 255 (Latin-1). \<open>len\<close> is \<open>length\<close>,
  the slice \<open>s[:n]\<close> is \<open>take n s\<close>, concatenation is \<open>@\<close>.
\<close>

definition newline :: char where
  "newline = CHR 0x0A"

definition isspace :: "char \<Rightarrow> bool" where
  \<comment> \<open>\<open>str.isspace\<close> of one character; also what \<open>\s\<close> matches in a \<open>str\<close> pattern\<close>
  "isspace c \<longleftrightarrow>
     (CHR 0x09 \<le> c \<and> c \<le> CHR 0x0D) \<or> (CHR 0x1C \<le> c \<and> c \<le> CHR 0x20)
     \<or> c = CHR 0x85 \<or> c = CHR 0xA0"

definition isdecimal :: "char \<Rightarrow> bool" where
  \<comment> \<open>what \<open>\d\<close> matches\<close>
  "isdecimal c \<longleftrightarrow> CHR ''0'' \<le> c \<and> c \<le> CHR ''9''"

definition isalnum :: "char \<Rightarrow> bool" where
  "isalnum c \<longleftrightarrow>
     (CHR ''0'' \<le> c \<and> c \<le> CHR ''9'') \<or> (CHR ''A'' \<le> c \<and> c \<le> CHR ''Z'')
     \<or> (CHR ''a'' \<le> c \<and> c \<le> CHR ''z'')
     \<or> c \<in> set [CHR 0xAA, CHR 0xB2, CHR 0xB3, CHR 0xB5, CHR 0xB9, CHR 0xBA, CHR 0xBC, CHR 0xBD, CHR 0xBE]
     \<or> (CHR 0xC0 \<le> c \<and> c \<noteq> CHR 0xD7 \<and> c \<noteq> CHR 0xF7)"

definition isword :: "char \<Rightarrow> bool" where
  \<comment> \<open>what \<open>\w\<close> matches\<close>
  "isword c \<longleftrightarrow> isalnum c \<or> c = CHR ''_''"

definition lower_char :: "char \<Rightarrow> char" where
  "lower_char c =
     (if (CHR ''A'' \<le> c \<and> c \<le> CHR ''Z'') \<or> (CHR 0xC0 \<le> c \<and> c \<le> CHR 0xDE \<and> c \<noteq> CHR 0xD7)
      then char_of (of_char c + (32::nat)) else c)"

definition upper_char :: "char \<Rightarrow> char" where
  "upper_char c =
     (if (CHR ''a'' \<le> c \<and> c \<le> CHR ''z'') \<or> (CHR 0xE0 \<le> c \<and> c \<le> CHR 0xFE \<and> c \<noteq> CHR 0xF7)
      then char_of (of_char c - (32::nat)) else c)"

definition lower :: "string \<Rightarrow> string" where
  \<comment> \<open>\<open>str.lower\<close>\<close>
  "lower s = map lower_char s"

primrec str_in :: "string \<Rightarrow> string \<Rightarrow> bool" where
  \<comment> \<open>\<open>x in s\<close>: \<open>x\<close> occurs in \<open>s\<close> as a contiguous substring\<close>
  "str_in x [] \<longleftrightarrow> x = []"
| "str_in x (c # cs) \<longleftrightarrow> prefix x (c # cs) \<or> str_in x cs"

definition startswith :: "string \<Rightarrow> string \<Rightarrow> bool" where
  "startswith s x \<longleftrightarrow> prefix x s"

definition strip :: "string \<Rightarrow> string" where
  \<comment> \<open>\<open>str.strip()\<close>\<close>
  "strip s = rev (dropWhile isspace (rev (dropWhile isspace s)))"

function split_on :: "char \<Rightarrow> string \<Rightarrow> string list" where
  \<comment> \<open>\<open>s.split(d)\<close> for a one-character separator\<close>
  "split_on d s =
     (case dropWhile (\<lambda>c. c \<noteq> d) s of
        [] \<Rightarrow> [s]
      | _ # r \<Rightarrow> takeWhile (\<lambda>c. c \<noteq> d) s # split_on d r)"
  by pat_completeness auto
termination
proof (relation "measure (\<lambda>(d, s). length s)")
  fix d :: char and s :: string and x r
  assume "dropWhile (\<lambda>c. c \<noteq> d) s = x # r"
  then have "length s = length (takeWhile (\<lambda>c. c \<noteq> d) s) + Suc (length r)"
    by (metis length_append takeWhile_dropWhile_id length_Cons)
  then show "((d, r), (d, s)) \<in> measure (\<lambda>(d, s). length s)"
    by simp
qed simp

function split_ws :: "string \<Rightarrow> string list" where
  \<comment> \<open>\<open>s.split()\<close>: the maximal runs of non-whitespace characters\<close>
  "split_ws s =
     (case dropWhile isspace s of
        [] \<Rightarrow> []
      | c # r \<Rightarrow> (c # takeWhile (\<lambda>x. \<not> isspace x) r) # split_ws (dropWhile (\<lambda>x. \<not> isspace x) r))"
  by pat_completeness auto
termination
proof (relation "measure length")
  fix s :: string and c r
  assume "dropWhile isspace s = c # r"
  then have "length (c # r) \<le> length s"
    by (metis length_dropWhile_le)
  moreover have "length (dropWhile (\<lambda>x. \<not> isspace x) r) \<le> length r"
    by (rule length_dropWhile_le)
  ultimately show "(dropWhile (\<lambda>x. \<not> isspace x) r, s) \<in> measure length"
    by simp
qed simp

declare split_on.simps [simp del] split_ws.simps [simp del]

definition count_char :: "char \<Rightarrow> string \<Rightarrow> nat" where
  \<comment> \<open>\<open>s.count(c)\<close>\<close>
  "count_char c s = length (filter (\<lambda>x. x = c) s)"

function str_nat :: "nat \<Rightarrow> string" where
  \<comment> \<open>\<open>str(n)\<close> of a non-negative integer, as an f-string formats it\<close>
  "str_nat n =
     (if n < 10 then [''0123456789'' ! n]
      else str_nat (n div 10) @ [''0123456789'' ! (n mod 10)])"
  by pat_completeness auto
termination
  by (relation "measure id") auto

declare str_nat.simps [simp del]

definition str_int :: "int \<Rightarrow> string" where
  "str_int i = (if i < 0 then ''-'' @ str_nat (nat (- i)) else str_nat (nat i))"

definition enumerate1 :: "'a list \<Rightarrow> (int \<times> 'a) list" where
  \<comment> \<open>\<open>enumerate(xs, 1)\<close>\<close>
  "enumerate1 xs = zip (map int [1..<Suc (length xs)]) xs"


section \<open>Regular expressions\<close>

text \<open>
  The patterns of the program are values of \<open>regex\<close>, written after Python's pattern
  syntax. Repetition is only ever applied to a single-character item in the program
  (\<open>[^>]+\<close>, \<open>\s*\<close>, \<open>.*?\<close>, \<open>#{1,6}\<close>), so \<open>Rep\<close> takes an \<open>atom\<close>; \<open>?\<close> on a
  group is \<open>Opt\<close>. Matching follows the backtracking order of the \<open>re\<close> module: \<open>rmatch\<close>
  lists every way a pattern can match at a position, the preferred one first.
\<close>

datatype flag = IGNORECASE | DOTALL

datatype cset =
    CChar char              \<comment> \<open>a character in a class\<close>
  | CRange char char        \<comment> \<open>\<open>a-z\<close>\<close>
  | CSpace                  \<comment> \<open>\<open>\s\<close>\<close>
  | CDigit                  \<comment> \<open>\<open>\d\<close>\<close>
  | CWord                   \<comment> \<open>\<open>\w\<close>\<close>

datatype atom =
    AnyChar                 \<comment> \<open>\<open>.\<close>\<close>
  | Ch char                 \<comment> \<open>a literal character\<close>
  | In "cset list"          \<comment> \<open>\<open>[...]\<close>, and \<open>\s\<close>, \<open>\d\<close>, \<open>\w\<close> outside a class\<close>
  | NotIn "cset list"       \<comment> \<open>\<open>[^...]\<close>\<close>

datatype regex =
    One atom
  | Str string                        \<comment> \<open>a run of literal characters\<close>
  | Rep atom nat "nat option" bool    \<comment> \<open>item, least count, greatest count, greedy\<close>
  | Opt regex                         \<comment> \<open>\<open>(?:r)?\<close>\<close>
  | Grp nat regex                     \<comment> \<open>capturing group number n\<close>
  | Backref nat                       \<comment> \<open>\<open>\n\<close>\<close>
  | Bol                               \<comment> \<open>\<open>^\<close>\<close>
  | Eol                               \<comment> \<open>\<open>$\<close>\<close>
  | WordB                             \<comment> \<open>\<open>\b\<close>\<close>
  | Cat "regex list"
  | Alt "regex list"

definition Star :: "atom \<Rightarrow> regex" where "Star a = Rep a 0 None True"
definition Plus :: "atom \<Rightarrow> regex" where "Plus a = Rep a 1 None True"
definition StarLazy :: "atom \<Rightarrow> regex" where "StarLazy a = Rep a 0 None False"
definition PlusLazy :: "atom \<Rightarrow> regex" where "PlusLazy a = Rep a 1 None False"
definition Between :: "nat \<Rightarrow> nat \<Rightarrow> atom \<Rightarrow> regex" where "Between m n a = Rep a m (Some n) True"

fun cset_match :: "bool \<Rightarrow> cset \<Rightarrow> char \<Rightarrow> bool" where
  \<comment> \<open>the flag is IGNORECASE: a class is then tested on the lowered character\<close>
  "cset_match ic (CChar x) c \<longleftrightarrow> (if ic then lower_char c = lower_char x else c = x)"
| "cset_match ic (CRange lo hi) c \<longleftrightarrow>
     (if ic then (lo \<le> lower_char c \<and> lower_char c \<le> hi) \<or> (lo \<le> upper_char c \<and> upper_char c \<le> hi)
      else lo \<le> c \<and> c \<le> hi)"
| "cset_match ic CSpace c \<longleftrightarrow> isspace c"
| "cset_match ic CDigit c \<longleftrightarrow> isdecimal c"
| "cset_match ic CWord c \<longleftrightarrow> isword c"

fun atom_match :: "flag list \<Rightarrow> atom \<Rightarrow> char \<Rightarrow> bool" where
  "atom_match fs AnyChar c \<longleftrightarrow> DOTALL \<in> set fs \<or> c \<noteq> newline"
| "atom_match fs (Ch x) c \<longleftrightarrow> (if IGNORECASE \<in> set fs then lower_char c = lower_char x else c = x)"
| "atom_match fs (In items) c \<longleftrightarrow> list_ex (\<lambda>i. cset_match (IGNORECASE \<in> set fs) i c) items"
| "atom_match fs (NotIn items) c \<longleftrightarrow> \<not> list_ex (\<lambda>i. cset_match (IGNORECASE \<in> set fs) i c) items"

record mstate =
  seen :: string                    \<comment> \<open>the subject before the position, last character first\<close>
  rest :: string                    \<comment> \<open>the subject from the position on\<close>
  caps :: "(nat \<times> string) list"    \<comment> \<open>the groups captured so far, latest first\<close>

definition advance :: "nat \<Rightarrow> mstate \<Rightarrow> mstate" where
  "advance n s = s\<lparr>seen := rev (take n (rest s)) @ seen s, rest := drop n (rest s)\<rparr>"

definition lit_match :: "flag list \<Rightarrow> string \<Rightarrow> string \<Rightarrow> bool" where
  \<comment> \<open>the literal \<open>w\<close> stands at the head of \<open>r\<close>\<close>
  "lit_match fs w r \<longleftrightarrow>
     length w \<le> length r \<and> list_all2 (\<lambda>x c. atom_match fs (Ch x) c) w (take (length w) r)"

definition at_boundary :: "mstate \<Rightarrow> bool" where
  \<comment> \<open>\<open>\b\<close>: exactly one of the characters before and after the position is a word character\<close>
  "at_boundary s \<longleftrightarrow>
     (case seen s of [] \<Rightarrow> False | p # _ \<Rightarrow> isword p) \<noteq> (case rest s of [] \<Rightarrow> False | c # _ \<Rightarrow> isword c)"

definition rep_counts :: "nat \<Rightarrow> nat option \<Rightarrow> bool \<Rightarrow> nat \<Rightarrow> nat list" where
  \<comment> \<open>the counts a repetition may take when \<open>k\<close> matching characters follow: most first when greedy\<close>
  "rep_counts mn mx greedy k =
     (let hi = (case mx of None \<Rightarrow> k | Some m \<Rightarrow> min m k);
          cs = [mn..<Suc hi]
      in if greedy then rev cs else cs)"

definition capture :: "nat \<Rightarrow> mstate \<Rightarrow> mstate \<Rightarrow> mstate" where
  \<comment> \<open>group \<open>n\<close> ran from state \<open>s\<close> to state \<open>s'\<close>\<close>
  "capture n s s' =
     s'\<lparr>caps := (n, rev (take (length (seen s') - length (seen s)) (seen s'))) # caps s'\<rparr>"

fun rmatch :: "flag list \<Rightarrow> regex \<Rightarrow> mstate \<Rightarrow> mstate list"
  and rmatch_cat :: "flag list \<Rightarrow> regex list \<Rightarrow> mstate \<Rightarrow> mstate list"
  and rmatch_alt :: "flag list \<Rightarrow> regex list \<Rightarrow> mstate \<Rightarrow> mstate list" where
  "rmatch fs (One a) s =
     (case rest s of [] \<Rightarrow> [] | c # _ \<Rightarrow> if atom_match fs a c then [advance 1 s] else [])"
| "rmatch fs (Str w) s = (if lit_match fs w (rest s) then [advance (length w) s] else [])"
| "rmatch fs (Rep a mn mx greedy) s =
     map (\<lambda>n. advance n s) (rep_counts mn mx greedy (length (takeWhile (atom_match fs a) (rest s))))"
| "rmatch fs (Opt r) s = rmatch fs r s @ [s]"
| "rmatch fs (Grp n r) s = map (capture n s) (rmatch fs r s)"
| "rmatch fs (Backref n) s =
     (case map_of (caps s) n of
        None \<Rightarrow> []
      | Some w \<Rightarrow> if lit_match fs w (rest s) then [advance (length w) s] else [])"
| "rmatch fs Bol s = (if seen s = [] then [s] else [])"
| "rmatch fs Eol s = (if rest s = [] \<or> rest s = [newline] then [s] else [])"
| "rmatch fs WordB s = (if at_boundary s then [s] else [])"
| "rmatch fs (Cat rs) s = rmatch_cat fs rs s"
| "rmatch fs (Alt rs) s = rmatch_alt fs rs s"
| "rmatch_cat fs [] s = [s]"
| "rmatch_cat fs (r # rs) s = concat (map (rmatch_cat fs rs) (rmatch fs r s))"
| "rmatch_alt fs [] s = []"
| "rmatch_alt fs (r # rs) s = rmatch fs r s @ rmatch_alt fs rs s"

record rematch =
  m_start :: nat                       \<comment> \<open>\<open>match.start()\<close>\<close>
  m_end :: nat                         \<comment> \<open>\<open>match.end()\<close>\<close>
  m_text :: string                     \<comment> \<open>\<open>match.group(0)\<close>\<close>
  m_groups :: "(nat \<times> string) list"

definition group :: "rematch \<Rightarrow> nat \<Rightarrow> string option" where
  \<comment> \<open>\<open>match.group(n)\<close>; \<open>None\<close> for a group that took no part in the match\<close>
  "group m n = (if n = 0 then Some (m_text m) else map_of (m_groups m) n)"

definition match_at :: "flag list \<Rightarrow> regex \<Rightarrow> string \<Rightarrow> string \<Rightarrow> rematch option" where
  \<comment> \<open>the preferred match starting exactly after \<open>pre\<close> (given last character first)\<close>
  "match_at fs r pre post =
     (case rmatch fs r \<lparr>seen = pre, rest = post, caps = []\<rparr> of
        [] \<Rightarrow> None
      | s' # _ \<Rightarrow>
          Some \<lparr>m_start = length pre, m_end = length (seen s'),
                m_text = rev (take (length (seen s') - length pre) (seen s')),
                m_groups = caps s'\<rparr>)"

fun scan :: "flag list \<Rightarrow> regex \<Rightarrow> string \<Rightarrow> string \<Rightarrow> rematch option" where
  \<comment> \<open>the leftmost match starting at or after the position\<close>
  "scan fs r pre [] = match_at fs r pre []"
| "scan fs r pre (c # cs) =
     (case match_at fs r pre (c # cs) of
        Some m \<Rightarrow> Some m
      | None \<Rightarrow> scan fs r (c # pre) cs)"

definition re_search :: "regex \<Rightarrow> string \<Rightarrow> flag list \<Rightarrow> rematch option" where
  "re_search r s fs = scan fs r [] s"

definition re_match :: "regex \<Rightarrow> string \<Rightarrow> flag list \<Rightarrow> rematch option" where
  "re_match r s fs = match_at fs r [] s"

function iter_from :: "flag list \<Rightarrow> regex \<Rightarrow> string \<Rightarrow> string \<Rightarrow> rematch list" where
  \<comment> \<open>the successive non-overlapping matches from the position on. After a match the scan
     resumes at its end; after an empty match it resumes one character further (no pattern
     of the program matches the empty string).\<close>
  "iter_from fs r pre post =
     (case scan fs r pre post of
        None \<Rightarrow> []
      | Some m \<Rightarrow>
          (let n = (if m_start m < m_end m then m_end m - length pre
                    else Suc (m_start m - length pre))
           in if 0 < n \<and> n \<le> length post
              then m # iter_from fs r (rev (take n post) @ pre) (drop n post)
              else [m]))"
  by pat_completeness auto
termination
  by (relation "measure (\<lambda>(fs, r, pre, post). length post)") auto

declare iter_from.simps [simp del]

definition re_finditer :: "regex \<Rightarrow> string \<Rightarrow> flag list \<Rightarrow> rematch list" where
  "re_finditer r s fs = iter_from fs r [] s"

fun pieces :: "nat \<Rightarrow> rematch list \<Rightarrow> string \<Rightarrow> string list" where
  \<comment> \<open>the parts of the subject between the matches, from position \<open>pos\<close>\<close>
  "pieces pos [] s = [drop pos s]"
| "pieces pos (m # ms) s = take (m_start m - pos) (drop pos s) # pieces (m_end m) ms s"

definition re_split :: "regex \<Rightarrow> string \<Rightarrow> string list" where
  \<comment> \<open>\<open>re.split\<close> for a pattern without groups\<close>
  "re_split r s = pieces 0 (re_finditer r s []) s"

definition re_sub_empty :: "regex \<Rightarrow> string \<Rightarrow> string" where
  \<comment> \<open>\<open>re.sub(r, '', s)\<close>: every match removed\<close>
  "re_sub_empty r s = concat (pieces 0 (re_finditer r s []) s)"

section \<open>Python floats\<close>

text \<open>
  A \<open>float\<close> is the rational number it denotes. \<open>fl\<close> rounds a rational to the nearest
  binary64 value, ties to even. The exponent range is not limited: the operands in the
  program are lengths and counts of one document, far from overflow and underflow.
\<close>

definition round_half_even :: "rat \<Rightarrow> int" where
  "round_half_even x =
     (let f = \<lfloor>x\<rfloor>; d = x - of_int f
      in if d < 1 / 2 then f else if 1 / 2 < d then f + 1 else if even f then f else f + 1)"

definition fl :: "rat \<Rightarrow> rat" where
  "fl x =
     (if x = 0 then 0
      else
        let a = \<bar>x\<bar>;
            e0 = bitlen (fst (quotient_of a)) - bitlen (snd (quotient_of a));
            e = (if 2 powi e0 \<le> a then e0 else e0 - 1);
            u = 2 powi (e - 52)
        in sgn x * of_int (round_half_even (a / u)) * u)"

definition fmul :: "rat \<Rightarrow> rat \<Rightarrow> rat" where
  \<comment> \<open>\<open>x * y\<close> on floats\<close>
  "fmul x y = fl (x * y)"

definition fmt_1f :: "rat \<Rightarrow> string" where
  \<comment> \<open>\<open>f"{x:.1f}"\<close> of a non-negative float: one decimal, correctly rounded, ties to even\<close>
  "fmt_1f x =
     (let n = nat (round_half_even (x * 10))
      in str_nat (n div 10) @ ''.'' @ str_nat (n mod 10))"

section \<open>Exceptions\<close>

datatype py_error = TypeError | ValueError | IndexError | ZeroDivisionError | AttributeError

definition and_then :: "py_error + 'a \<Rightarrow> ('a \<Rightarrow> py_error + 'b) \<Rightarrow> py_error + 'b" where
  \<comment> \<open>the next statement runs only when the one before it raised nothing\<close>
  "and_then m f = (case m of Inl e \<Rightarrow> Inl e | Inr v \<Rightarrow> f v)"

fun run_all :: "('s \<Rightarrow> py_error + 's) list \<Rightarrow> 's \<Rightarrow> py_error + 's" where
  \<comment> \<open>a sequence of statements on the same object\<close>
  "run_all [] s = Inr s"
| "run_all (f # fs) s = and_then (f s) (run_all fs)"

fun for_each :: "'a list \<Rightarrow> ('a \<Rightarrow> 's \<Rightarrow> py_error + 's) \<Rightarrow> 's \<Rightarrow> py_error + 's" where
  \<comment> \<open>\<open>for x in xs: body\<close>, the loop ending at the first exception\<close>
  "for_each [] body s = Inr s"
| "for_each (x # xs) body s = and_then (body x s) (for_each xs body)"

definition truediv :: "nat \<Rightarrow> nat \<Rightarrow> py_error + rat" where
  \<comment> \<open>\<open>a / b\<close> on integers\<close>
  "truediv a b = (if b = 0 then Inl ZeroDivisionError else Inr (fl (of_nat a / of_nat b)))"

definition py_index :: "'a list \<Rightarrow> nat \<Rightarrow> py_error + 'a" where
  \<comment> \<open>\<open>xs[i]\<close> for \<open>i \<ge> 0\<close>\<close>
  "py_index xs i = (if i < length xs then Inr (xs ! i) else Inl IndexError)"

definition py_len :: "string option \<Rightarrow> py_error + nat" where
  \<comment> \<open>\<open>len(x)\<close>, where \<open>x\<close> is a string or \<open>None\<close>\<close>
  "py_len x = (case x of None \<Rightarrow> Inl TypeError | Some s \<Rightarrow> Inr (length s))"

definition digit_val :: "char \<Rightarrow> nat" where
  "digit_val c = of_char c - of_char (CHR ''0'')"

definition py_int :: "string option \<Rightarrow> py_error + int" where
  \<comment> \<open>\<open>int(x)\<close>: defined here on the non-empty strings of decimal digits; Python accepts
     more (a sign, blanks around the number), which the model reports as \<open>ValueError\<close>\<close>
  "py_int x =
     (case x of
        None \<Rightarrow> Inl TypeError
      | Some s \<Rightarrow>
          if s \<noteq> [] \<and> list_all isdecimal s
          then Inr (int (foldl (\<lambda>n c. 10 * n + digit_val c) 0 s))
          else Inl ValueError)"

definition py_or :: "string option \<Rightarrow> string option \<Rightarrow> string option" where
  \<comment> \<open>\<open>x or y\<close>: \<open>x\<close> unless it is \<open>None\<close> or empty\<close>
  "py_or x y = (if x = None \<or> x = Some [] then y else x)"

definition re_sub_opt :: "regex \<Rightarrow> string option \<Rightarrow> py_error + string" where
  \<comment> \<open>\<open>re.sub(r, '', x)\<close>, where \<open>x\<close> is a string or \<open>None\<close>\<close>
  "re_sub_opt r x = (case x of None \<Rightarrow> Inl TypeError | Some s \<Rightarrow> Inr (re_sub_empty r s))"

section \<open>billie\_jean.py: the data model\<close>

datatype ContentType = WEB_PAGE | NEWS_ARTICLE | UNKNOWN

datatype Severity = CRITICAL | ERROR | WARNING | SUGGESTION

fun severity_value :: "Severity \<Rightarrow> string" where
  \<comment> \<open>\<open>Severity.X.value\<close>\<close>
  "severity_value CRITICAL = ''CRITICAL''"
| "severity_value ERROR = ''ERROR''"
| "severity_value WARNING = ''WARNING''"
| "severity_value SUGGESTION = ''SUGGESTION''"

record ReviewIssue =
  category :: string
  severity :: Severity
  message :: string
  suggestion :: string
  line_number :: int
  "context" :: string
  flagged_text :: string

record StrategicAlignment =
  earth_system_monitoring :: bool
  early_warnings :: bool
  climate_action :: bool
  capacity_development :: bool
  hydrometeorological_services :: bool

definition StrategicAlignment_new :: StrategicAlignment where
  \<comment> \<open>\<open>StrategicAlignment()\<close>\<close>
  "StrategicAlignment_new =
     \<lparr>earth_system_monitoring = False, early_warnings = False, climate_action = False,
      capacity_development = False, hydrometeorological_services = False\<rparr>"

definition covered :: "StrategicAlignment \<Rightarrow> nat" where
  \<comment> \<open>the \<open>sum\<close> of the five flags in \<open>get_coverage\<close>\<close>
  "covered a =
     sum_list (map of_bool
       [earth_system_monitoring a, early_warnings a, climate_action a,
        capacity_development a, hydrometeorological_services a])"

definition get_coverage :: "StrategicAlignment \<Rightarrow> rat" where
  "get_coverage a = fmul (fl (of_nat (covered a) / of_nat 5)) 100"

definition setattr_True :: "string \<Rightarrow> StrategicAlignment \<Rightarrow> StrategicAlignment" where
  \<comment> \<open>\<open>setattr(a, name, True)\<close>; another name would add an attribute and leave the flags\<close>
  "setattr_True name a =
     (if name = ''earth_system_monitoring'' then a\<lparr>earth_system_monitoring := True\<rparr>
      else if name = ''early_warnings'' then a\<lparr>early_warnings := True\<rparr>
      else if name = ''climate_action'' then a\<lparr>climate_action := True\<rparr>
      else if name = ''capacity_development'' then a\<lparr>capacity_development := True\<rparr>
      else if name = ''hydrometeorological_services'' then a\<lparr>hydrometeorological_services := True\<rparr>
      else a)"

record BillieJean =
  content_type :: ContentType
  issues :: "ReviewIssue list"
  content :: string
  content_lines :: "string list"
  strategic_alignment :: StrategicAlignment
  defined_abbreviations :: "string set"

definition BillieJean_init :: "ContentType \<Rightarrow> BillieJean" where
  \<comment> \<open>\<open>BillieJean(content_type)\<close>\<close>
  "BillieJean_init ct =
     \<lparr>content_type = ct, issues = [], content = [], content_lines = [],
      strategic_alignment = StrategicAlignment_new, defined_abbreviations = {}\<rparr>"

definition append_issues :: "ReviewIssue list \<Rightarrow> BillieJean \<Rightarrow> BillieJean" where
  \<comment> \<open>\<open>self.issues.append(...)\<close>, for each issue of the list in turn\<close>
  "append_issues new s = s\<lparr>issues := issues s @ new\<rparr>"

definition squote :: char where "squote = CHR 0x27"
definition dquote :: char where "dquote = CHR 0x22"

definition line_of :: "string \<Rightarrow> nat \<Rightarrow> int" where
  \<comment> \<open>\<open>content[:start].count('\n') + 1\<close>\<close>
  "line_of text start = int (count_char newline (take start text)) + 1"

definition STRATEGIC_KEYWORDS :: "(string \<times> string list) list" where
  "STRATEGIC_KEYWORDS =
    [(''earth_system_monitoring'',
       [''observation'', ''monitoring'', ''data collection'', ''satellite'', ''weather station'',
        ''WIGOS'', ''Global Observing System'', ''measurement'', ''sensor'']),
     (''early_warnings'',
       [''early warning'', ''forecast'', ''prediction'', ''alert'', ''warning system'',
        ''preparedness'', ''risk reduction'', ''disaster'', ''severe weather'']),
     (''climate_action'',
       [''climate change'', ''climate action'', ''adaptation'', ''mitigation'', ''greenhouse gas'',
        ''Paris Agreement'', ''UNFCCC'', ''global warming'', ''carbon'', ''climate services'']),
     (''capacity_development'',
       [''capacity'', ''training'', ''education'', ''knowledge transfer'', ''technical assistance'',
        ''development'', ''partnership'', ''cooperation'', ''support'']),
     (''hydrometeorological_services'',
       [''water'', ''hydrology'', ''flood'', ''drought'', ''water resources'', ''precipitation'',
        ''river'', ''hydrological'', ''water management'', ''NMHS''])]"

definition WMO_ABBREVIATIONS :: "(string \<times> string) list" where
  "WMO_ABBREVIATIONS =
    [(''WMO'', ''World Meteorological Organization''),
     (''GCOS'', ''Global Climate Observing System''),
     (''WIGOS'', ''WMO Integrated Global Observing System''),
     (''WIS'', ''WMO Information System''),
     (''GAW'', ''Global Atmosphere Watch''),
     (''GDPFS'', ''Global Data-Processing and Forecasting System''),
     (''IPCC'', ''Intergovernmental Panel on Climate Change''),
     (''UNFCCC'', ''United Nations Framework Convention on Climate Change''),
     (''GHG'', ''Greenhouse Gas''),
     (''NMHS'', ''National Meteorological and Hydrological Services''),
     (''AMDAR'', ''Aircraft Meteorological Data Relay''),
     (''GTS'', ''Global Telecommunication System'')]"

section \<open>The checks of BillieJean\<close>

subsection \<open>check\_strategic\_alignment\<close>

definition keyword_found :: "string \<Rightarrow> string list \<Rightarrow> bool" where
  \<comment> \<open>the inner loop: some keyword, lowered, occurs in the lowered content (then \<open>break\<close>)\<close>
  "keyword_found content_lower keywords = list_ex (\<lambda>keyword. str_in (lower keyword) content_lower) keywords"

definition scan_priorities :: "string \<Rightarrow> StrategicAlignment \<Rightarrow> StrategicAlignment" where
  \<comment> \<open>the loop over \<open>STRATEGIC_KEYWORDS.items()\<close>\<close>
  "scan_priorities content_lower a =
     fold (\<lambda>(priority, keywords) a.
            if keyword_found content_lower keywords then setattr_True priority a else a)
          STRATEGIC_KEYWORDS a"

definition alignment_issue :: ReviewIssue where
  "alignment_issue =
     \<lparr>category = ''Strategic Alignment'', severity = CRITICAL,
      message = ''Content shows minimal alignment with WMO strategic priorities'',
      suggestion = ''Consider explicitly connecting content to WMO'' @ [squote] @ ''s mission: Earth system monitoring, early warnings, climate action, capacity development, or hydrometeorological services'',
      line_number = 0, context = [], flagged_text = []\<rparr>"

definition check_strategic_alignment :: "BillieJean \<Rightarrow> py_error + BillieJean" where
  "check_strategic_alignment s =
     (let content_lower = lower (content s);
          s1 = s\<lparr>strategic_alignment := scan_priorities content_lower (strategic_alignment s)\<rparr>
      in if get_coverage (strategic_alignment s1) < 20
         then Inr (append_issues [alignment_issue] s1)
         else Inr s1)"

subsection \<open>check\_style\_guide\_compliance\<close>

definition sentence_end :: regex where
  \<comment> \<open>\<open>[.!?]+\<close>\<close>
  "sentence_end = Plus (In [CChar CHR ''.'', CChar CHR ''!'', CChar CHR ''?''])"

definition extract_phrase :: "string \<Rightarrow> string \<Rightarrow> string" where
  \<comment> \<open>\<open>_extract_phrase\<close>; the phrase is compiled as a pattern, and the one call passes
     letters and blanks\<close>
  "extract_phrase line phrase =
     (case re_search (Str phrase) line [IGNORECASE] of Some m \<Rightarrow> m_text m | None \<Rightarrow> phrase)"

definition capitalization_issues :: "int \<Rightarrow> string \<Rightarrow> ReviewIssue list" where
  "capitalization_issues i line =
     (if str_in ''world meteorological organization'' (lower line)
         \<and> \<not> str_in ''World Meteorological Organization'' line
      then [\<lparr>category = ''Style Guide'', severity = ERROR,
             message = [squote] @ ''World Meteorological Organization'' @ [squote] @ '' must be properly capitalized'',
             suggestion = ''Use '' @ [squote] @ ''World Meteorological Organization'' @ [squote] @ '' with capital letters'',
             line_number = i, context = [],
             flagged_text = extract_phrase line ''world meteorological organization''\<rparr>]
      else [])"

definition long_sentence_issues :: "int \<Rightarrow> string \<Rightarrow> ReviewIssue list" where
  "long_sentence_issues i line =
     concat (map (\<lambda>sentence.
       if strip sentence = [] then []
       else
         let word_count = length (split_ws sentence)
         in if 30 < word_count
            then [\<lparr>category = ''Style Guide - Clarity'', severity = WARNING,
                   message = ''Sentence is too long for web content ('' @ str_nat word_count @ '' words)'',
                   suggestion = ''Break into shorter sentences (aim for 20-25 words max) for better web readability'',
                   line_number = i, context = take 100 (strip sentence), flagged_text = []\<rparr>]
            else [])
       (re_split sentence_end line))"

definition passive_patterns :: "(regex \<times> string) list" where
  "passive_patterns =
     [(Cat [WordB, Str ''is being'', WordB], ''is being''),
      (Cat [WordB, Str ''was being'', WordB], ''was being''),
      (Cat [WordB, Str ''has been'', WordB], ''has been''),
      (Cat [WordB, Str ''have been'', WordB], ''have been''),
      (Cat [WordB, Str ''had been'', WordB], ''had been'')]"

definition passive_issues :: "int \<Rightarrow> string \<Rightarrow> ReviewIssue list" where
  \<comment> \<open>the first pattern found gives the one issue of the line (\<open>break\<close>)\<close>
  "passive_issues i line =
     (case find (\<lambda>(pattern, phrase). re_search pattern line [IGNORECASE] \<noteq> None) passive_patterns of
        None \<Rightarrow> []
      | Some (pattern, phrase) \<Rightarrow>
          [\<lparr>category = ''Style Guide - Voice'', severity = SUGGESTION,
            message = ''Passive voice detected'',
            suggestion = ''Consider using active voice for more direct, engaging communication'',
            line_number = i, context = [], flagged_text = phrase\<rparr>])"

definition abbrev_issues :: "(regex \<times> string \<times> string) list" where
  "abbrev_issues =
     [(Cat [WordB, Str ''temp'', WordB], ''temp'', ''temperature''),
      (Cat [WordB, Str ''max'', WordB], ''max'', ''maximum''),
      (Cat [WordB, Str ''min'', WordB], ''min'', ''minimum''),
      (Cat [WordB, Str ''info'', WordB], ''info'', ''information'')]"

definition informal_issue :: "int \<Rightarrow> string \<Rightarrow> string \<Rightarrow> ReviewIssue" where
  "informal_issue i abbrev full =
     \<lparr>category = ''Style Guide - Abbreviations'', severity = ERROR,
      message = ''Avoid informal abbreviation '' @ [squote] @ abbrev @ [squote] @ '' in formal content'',
      suggestion = ''Use '' @ [squote] @ full @ [squote] @ '' instead'',
      line_number = i, context = [], flagged_text = abbrev\<rparr>"

definition informal_issues :: "int \<Rightarrow> string \<Rightarrow> ReviewIssue list" where
  "informal_issues i line =
     concat (map (\<lambda>(pattern, abbrev, full).
       if re_search pattern (lower line) [] \<noteq> None then [informal_issue i abbrev full] else [])
       abbrev_issues)"

definition italics_pattern :: regex where
  \<comment> \<open>\<open>\*[^*]+\*|_[^_]+_|<em>|<i>\<close>\<close>
  "italics_pattern =
     Alt [Cat [Str ''*'', Plus (NotIn [CChar CHR ''*'']), Str ''*''],
          Cat [Str ''_'', Plus (NotIn [CChar CHR ''_'']), Str ''_''],
          Str ''<em>'', Str ''<i>'']"

definition italics_issues :: "int \<Rightarrow> string \<Rightarrow> ReviewIssue list" where
  "italics_issues i line =
     (if re_search italics_pattern line [] \<noteq> None
      then [\<lparr>category = ''Style Guide - Formatting'', severity = WARNING,
             message = ''Possible use of italics detected'',
             suggestion = ''Italics should only be used for publication titles, Latin names, etc., not for emphasis in web content'',
             line_number = i, context = [], flagged_text = []\<rparr>]
      else [])"

definition style_line_issues :: "int \<Rightarrow> string \<Rightarrow> ReviewIssue list" where
  \<comment> \<open>the body of the loop over the lines\<close>
  "style_line_issues i line =
     capitalization_issues i line @ long_sentence_issues i line @ passive_issues i line
     @ informal_issues i line @ italics_issues i line"

definition check_style_guide_compliance :: "BillieJean \<Rightarrow> py_error + BillieJean" where
  "check_style_guide_compliance s =
     Inr (append_issues
       (concat (map (\<lambda>(i, line). style_line_issues i line) (enumerate1 (content_lines s)))) s)"

subsection \<open>check\_accessibility\_wcag\<close>

definition img_pattern :: regex where
  \<comment> \<open>\<open><img[^>]+>\<close>\<close>
  "img_pattern = Cat [Str ''<img'', Plus (NotIn [CChar CHR ''>'']), Str ''>'']"

definition empty_alt_pattern :: regex where
  \<comment> \<open>\<open>alt=["\'][\s]*["\']\<close>\<close>
  "empty_alt_pattern =
     Cat [Str ''alt='', One (In [CChar dquote, CChar squote]), Star (In [CSpace]),
          One (In [CChar dquote, CChar squote])]"

definition image_issues :: "string \<Rightarrow> ReviewIssue list" where
  "image_issues text =
     concat (map (\<lambda>m.
       let img_tag = m_text m; line_num = line_of text (m_start m)
       in if \<not> str_in ''alt='' (lower img_tag)
          then [\<lparr>category = ''Accessibility (WCAG 2.1)'', severity = CRITICAL,
                 message = ''Image missing alt text (WCAG 2.1 Level A requirement)'',
                 suggestion = ''Add descriptive alt text: alt='' @ [squote] @ ''[description of image content and function]'' @ [squote],
                 line_number = line_num, context = [], flagged_text = take 80 img_tag\<rparr>]
          else if re_search empty_alt_pattern img_tag [] \<noteq> None
          then [\<lparr>category = ''Accessibility (WCAG 2.1)'', severity = WARNING,
                 message = ''Image has empty alt text'',
                 suggestion = ''If decorative, use alt='' @ [squote, squote] @ ''. If meaningful, provide descriptive text'',
                 line_number = line_num, context = [], flagged_text = []\<rparr>]
          else [])
       (re_finditer img_pattern text [IGNORECASE]))"

definition md_heading_pattern :: regex where
  \<comment> \<open>\<open>^(#{1,6})\s+(.+)$\<close>\<close>
  "md_heading_pattern =
     Cat [Bol, Grp 1 (Between 1 6 (Ch CHR ''#'')), Plus (In [CSpace]), Grp 2 (Plus AnyChar), Eol]"

definition html_heading_pattern :: regex where
  \<comment> \<open>\<open><h([1-6])[^>]*>(.*?)</h\1>\<close>\<close>
  "html_heading_pattern =
     Cat [Str ''<h'', Grp 1 (One (In [CRange CHR ''1'' CHR ''6''])), Star (NotIn [CChar CHR ''>'']),
          Str ''>'', Grp 2 (StarLazy AnyChar), Str ''</h'', Backref 1, Str ''>'']"

definition tag_pattern :: regex where
  \<comment> \<open>\<open><[^>]+>\<close>\<close>
  "tag_pattern = Cat [Str ''<'', Plus (NotIn [CChar CHR ''>'']), Str ''>'']"

type_synonym heading = "int \<times> int \<times> string option"

definition md_heading :: "int \<Rightarrow> string \<Rightarrow> heading list \<Rightarrow> py_error + heading list" where
  \<comment> \<open>the Markdown heading of a line, appended to the list\<close>
  "md_heading i line headings =
     (case re_match md_heading_pattern line [] of
        None \<Rightarrow> Inr headings
      | Some md_match \<Rightarrow>
          and_then (py_len (group md_match 1))
            (\<lambda>level. Inr (headings @ [(i, int level, group md_match 2)])))"

definition html_headings :: "int \<Rightarrow> string \<Rightarrow> heading list \<Rightarrow> py_error + heading list" where
  \<comment> \<open>the HTML headings of a line, appended to the list\<close>
  "html_headings i line headings =
     for_each (re_finditer html_heading_pattern line [IGNORECASE])
       (\<lambda>m hs.
          and_then (py_int (group m 1))
            (\<lambda>level. and_then (re_sub_opt tag_pattern (group m 2))
              (\<lambda>text. Inr (hs @ [(i, level, Some text)]))))
       headings"

definition collect_headings :: "string list \<Rightarrow> py_error + heading list" where
  "collect_headings lines =
     for_each (enumerate1 lines)
       (\<lambda>(i, line) headings. and_then (md_heading i line headings) (html_headings i line))
       []"

definition first_heading_issue :: "int \<Rightarrow> ReviewIssue" where
  "first_heading_issue i =
     \<lparr>category = ''Accessibility (WCAG 2.1)'', severity = ERROR,
      message = ''Document should start with H1 heading'',
      suggestion = ''Use H1 for main title, then H2 for sections, H3 for subsections'',
      line_number = i, context = [], flagged_text = []\<rparr>"

definition skip_issue :: "int \<Rightarrow> int \<Rightarrow> int \<Rightarrow> ReviewIssue" where
  "skip_issue prev_level curr_level i =
     \<lparr>category = ''Accessibility (WCAG 2.1)'', severity = ERROR,
      message = ''Heading hierarchy skip: H'' @ str_int prev_level @ '' to H'' @ str_int curr_level,
      suggestion = ''Maintain sequential heading levels for screen reader users'',
      line_number = i, context = [], flagged_text = []\<rparr>"

definition hierarchy_issues :: "heading list \<Rightarrow> py_error + ReviewIssue list" where
  "hierarchy_issues headings =
     (if headings = [] then Inr []
      else
        and_then (py_index headings 0)
          (\<lambda>h0.
             for_each [1..<length headings]
               (\<lambda>idx acc.
                  and_then (py_index headings (idx - 1))
                    (\<lambda>prev. and_then (py_index headings idx)
                      (\<lambda>curr.
                         let prev_level = fst (snd prev); curr_level = fst (snd curr)
                         in if prev_level + 1 < curr_level
                            then Inr (acc @ [skip_issue prev_level curr_level (fst curr)])
                            else Inr acc)))
               (if fst (snd h0) \<noteq> 1 then [first_heading_issue (fst h0)] else [])))"

definition generic_texts :: "string list" where
  "generic_texts = [''click here'', ''read more'', ''here'', ''this link'', ''link'']"

definition link_pattern :: regex where
  \<comment> \<open>\<open><a[^>]*>([^<]+)</a>|\[([^\]]+)\]\([^)]+\)\<close>\<close>
  "link_pattern =
     Alt [Cat [Str ''<a'', Star (NotIn [CChar CHR ''>'']), Str ''>'',
               Grp 1 (Plus (NotIn [CChar CHR ''<''])), Str ''</a>''],
          Cat [Str ''['', Grp 2 (Plus (NotIn [CChar CHR '']''])), Str ''](''  ,
               Plus (NotIn [CChar CHR '')'']), Str '')'']]"

definition generic_link_issues :: "string \<Rightarrow> ReviewIssue list" where
  "generic_link_issues text =
     concat (map (\<lambda>m.
       let link_text = lower (strip (case py_or (py_or (group m 1) (group m 2)) (Some []) of
                                       Some t \<Rightarrow> t | None \<Rightarrow> []))
       in if link_text \<in> set generic_texts
          then [\<lparr>category = ''Accessibility (WCAG 2.1)'', severity = ERROR,
                 message = ''Generic link text: '' @ [squote] @ link_text @ [squote],
                 suggestion = ''Use descriptive link text that makes sense out of context (e.g., '' @ [squote] @ ''WMO Climate Report 2025'' @ [squote] @ '' instead of '' @ [squote] @ ''click here'' @ [squote] @ '')'',
                 line_number = line_of text (m_start m), context = [], flagged_text = link_text\<rparr>]
          else [])
       (re_finditer link_pattern text [IGNORECASE]))"

definition check_accessibility_wcag :: "BillieJean \<Rightarrow> py_error + BillieJean" where
  "check_accessibility_wcag s =
     (let s1 = append_issues (image_issues (content s)) s
      in and_then (collect_headings (content_lines s1))
           (\<lambda>headings. and_then (hierarchy_issues headings)
             (\<lambda>found. Inr (append_issues (generic_link_issues (content s1)) (append_issues found s1)))))"

subsection \<open>check\_readability\<close>

definition technical_terms :: "string list" where
  "technical_terms =
     [''synoptic'', ''baroclinic'', ''geopotential'', ''meridional'', ''zonal'',
      ''advection'', ''adiabatic'', ''convection'', ''parameterization'']"

definition explained_pattern :: "string \<Rightarrow> regex" where
  \<comment> \<open>\<open>f'{term}[^.!?]*?(?:is|means|refers to|defined as)'\<close>\<close>
  "explained_pattern term =
     Cat [Str term, StarLazy (NotIn [CChar CHR ''.'', CChar CHR ''!'', CChar CHR ''?'']),
          Alt [Str ''is'', Str ''means'', Str ''refers to'', Str ''defined as'']]"

definition sentence_length_issues :: "string \<Rightarrow> py_error + ReviewIssue list" where
  "sentence_length_issues text =
     (let total_words = length (split_ws text);
          sentences = re_split sentence_end text;
          sentence_count = length (filter (\<lambda>s. strip s \<noteq> []) sentences)
      in if 0 < sentence_count
         then and_then (truediv total_words sentence_count)
                (\<lambda>avg_words_per_sentence.
                   if 25 < avg_words_per_sentence
                   then Inr [\<lparr>category = ''Readability'', severity = WARNING,
                              message = ''Average sentence length is high ('' @ fmt_1f avg_words_per_sentence @ '' words)'',
                              suggestion = ''Aim for average of 15-20 words per sentence for web content'',
                              line_number = 0, context = [], flagged_text = []\<rparr>]
                   else Inr [])
         else Inr [])"

definition jargon_issues :: "string \<Rightarrow> ReviewIssue list" where
  "jargon_issues text =
     (let content_lower = lower text
      in concat (map (\<lambda>term.
           if str_in term content_lower
              \<and> re_search (explained_pattern term) content_lower [IGNORECASE] = None
           then [\<lparr>category = ''Readability - Jargon'', severity = WARNING,
                  message = ''Technical term '' @ [squote] @ term @ [squote] @ '' may need explanation'',
                  suggestion = ''Consider adding a brief explanation for general audiences or linking to a glossary'',
                  line_number = 0, context = [], flagged_text = term\<rparr>]
           else [])
           technical_terms))"

definition check_readability :: "BillieJean \<Rightarrow> py_error + BillieJean" where
  "check_readability s =
     and_then (sentence_length_issues (content s))
       (\<lambda>found. Inr (append_issues (jargon_issues (content s)) (append_issues found s)))"

subsection \<open>check\_terminology\<close>

definition terminology_guide :: "(string \<times> string \<times> string) list" where
  "terminology_guide =
     [(''global warming'', ''climate change'',
         ''WMO prefers '' @ [dquote] @ ''climate change'' @ [dquote] @ '' for broader scientific accuracy''),
      (''weather prediction'', ''weather forecast'',
         ''Use '' @ [dquote] @ ''forecast'' @ [dquote] @ '' as the standard meteorological term''),
      (''rainfall'', ''precipitation'',
         ''Use '' @ [dquote] @ ''precipitation'' @ [dquote] @ '' for accuracy (includes rain, snow, etc.) unless specifically rain'')]"

definition terminology_line_issues :: "int \<Rightarrow> string \<Rightarrow> ReviewIssue list" where
  "terminology_line_issues i line =
     concat (map (\<lambda>(term, preferred, reason).
       if str_in term (lower line)
       then [\<lparr>category = ''Terminology'', severity = SUGGESTION,
              message = ''Consider terminology: '' @ [squote] @ term @ [squote],
              suggestion = ''WMO prefers '' @ [squote] @ preferred @ [squote] @ ''. '' @ reason,
              line_number = i, context = [], flagged_text = term\<rparr>]
       else [])
       terminology_guide)"

definition check_terminology :: "BillieJean \<Rightarrow> py_error + BillieJean" where
  "check_terminology s =
     Inr (append_issues
       (concat (map (\<lambda>(i, line). terminology_line_issues i line) (enumerate1 (content_lines s)))) s)"

subsection \<open>check\_abbreviations\<close>

definition definition_patterns :: "string \<Rightarrow> string \<Rightarrow> regex list" where
  \<comment> \<open>\<open>f'{abbrev}\s*\([^)]*{re.escape(full_form)}[^)]*\)'\<close> and
     \<open>f'{re.escape(full_form)}\s*\({abbrev}\)'\<close>; the names are letters, blanks and hyphens,
     which stand for themselves\<close>
  "definition_patterns abbrev full_form =
     [Cat [Str abbrev, Star (In [CSpace]), Str ''('', Star (NotIn [CChar CHR '')'']),
           Str full_form, Star (NotIn [CChar CHR '')'']), Str '')''],
      Cat [Str full_form, Star (In [CSpace]), Str ''('', Str abbrev, Str '')'']]"

definition is_defined :: "string \<Rightarrow> string \<Rightarrow> string \<Rightarrow> bool" where
  "is_defined abbrev full_form line =
     list_ex (\<lambda>p. re_search p line [IGNORECASE] \<noteq> None) (definition_patterns abbrev full_form)"

definition abbreviation_issue :: "int \<Rightarrow> string \<Rightarrow> string \<Rightarrow> ReviewIssue" where
  "abbreviation_issue i abbrev full_form =
     \<lparr>category = ''Style Guide - Abbreviations'', severity = WARNING,
      message = ''Abbreviation '' @ [squote] @ abbrev @ [squote] @ '' not defined on first use'',
      suggestion = ''Define as: '' @ full_form @ '' ('' @ abbrev @ '')'',
      line_number = i, context = [], flagged_text = abbrev\<rparr>"

definition abbreviation_step :: "int \<Rightarrow> string \<Rightarrow> string \<times> string \<Rightarrow> BillieJean \<Rightarrow> BillieJean" where
  \<comment> \<open>the body of the inner loop, for one line and one abbreviation\<close>
  "abbreviation_step i line = (\<lambda>(abbrev, full_form) s.
     if str_in abbrev line
     then
       if is_defined abbrev full_form line
       then s\<lparr>defined_abbreviations := insert abbrev (defined_abbreviations s)\<rparr>
       else if abbrev \<notin> defined_abbreviations s \<and> abbrev \<noteq> ''WMO''
       then (append_issues [abbreviation_issue i abbrev full_form] s)
              \<lparr>defined_abbreviations := insert abbrev (defined_abbreviations s)\<rparr>
       else s
     else s)"

definition check_abbreviations :: "BillieJean \<Rightarrow> py_error + BillieJean" where
  "check_abbreviations s =
     Inr (fold (\<lambda>(i, line) s. fold (abbreviation_step i line) WMO_ABBREVIATIONS s)
            (enumerate1 (content_lines s)) s)"

subsection \<open>check\_news\_article\_standards\<close>

definition md_title_pattern :: regex where
  \<comment> \<open>\<open>^#\s+(.+)$\<close>\<close>
  "md_title_pattern = Cat [Bol, Str ''#'', Plus (In [CSpace]), Grp 1 (Plus AnyChar), Eol]"

definition h1_pattern :: regex where
  \<comment> \<open>\<open><h1[^>]*>(.+?)</h1>\<close>\<close>
  "h1_pattern =
     Cat [Str ''<h1'', Star (NotIn [CChar CHR ''>'']), Str ''>'', Grp 1 (PlusLazy AnyChar), Str ''</h1>'']"

definition capitalized_word :: regex where
  \<comment> \<open>\<open>\b[A-Z][a-z]*\b\<close>\<close>
  "capitalized_word =
     Cat [WordB, One (In [CRange CHR ''A'' CHR ''Z'']), Star (In [CRange CHR ''a'' CHR ''z'']), WordB]"

definition when_patterns :: "regex list" where
  \<comment> \<open>\<open>\b\d{4}\b\<close>, \<open>\btoday\b\<close>, \<open>\byesterday\b\<close>, \<open>\bthis week\b\<close>\<close>
  "when_patterns =
     [Cat [WordB, Between 4 4 (In [CDigit]), WordB],
      Cat [WordB, Str ''today'', WordB],
      Cat [WordB, Str ''yesterday'', WordB],
      Cat [WordB, Str ''this week'', WordB]]"

definition title_case_issues :: "string list \<Rightarrow> ReviewIssue list" where
  "title_case_issues lines =
     (case find (\<lambda>(i, line). re_match md_title_pattern line [] \<noteq> None
                              \<or> re_search h1_pattern line [IGNORECASE] \<noteq> None)
             (enumerate1 lines) of
        None \<Rightarrow> []
      | Some (i, line) \<Rightarrow>
          let words = re_finditer capitalized_word line []
          in if fmul (of_nat (length (split_ws line))) (1 / 2) < of_nat (length words)
             then [\<lparr>category = ''News Article Standards'', severity = WARNING,
                    message = ''Title appears to use title case'',
                    suggestion = ''News articles should use sentence case: '' @ [squote] @ ''New climate report shows...'' @ [squote] @ '' not '' @ [squote] @ ''New Climate Report Shows...'' @ [squote],
                    line_number = i, context = [], flagged_text = []\<rparr>]
             else [])"

definition opening_issues :: "string list \<Rightarrow> ReviewIssue list" where
  "opening_issues lines =
     (case find (\<lambda>line. strip line \<noteq> [] \<and> \<not> startswith (strip line) ''#''
                         \<and> \<not> startswith (strip line) ''<'' \<and> 10 < length (split_ws line))
             (take 20 lines) of
        None \<Rightarrow> []
      | Some first_paragraph \<Rightarrow>
          let has_what = list_ex (\<lambda>word. str_in word (lower first_paragraph))
                           [''announce'', ''reveal'', ''show'', ''report'', ''find''];
              has_when = list_ex (\<lambda>pattern. re_search pattern first_paragraph [IGNORECASE] \<noteq> None)
                           when_patterns
          in if \<not> (has_what \<or> has_when)
             then [\<lparr>category = ''News Article Standards - Storytelling'', severity = SUGGESTION,
                    message = ''Opening paragraph could be more engaging'',
                    suggestion = ''Lead with the news value: What happened? When? Why does it matter? Hook readers immediately'',
                    line_number = 0, context = [], flagged_text = []\<rparr>]
             else [])"

definition article_length_issues :: "string \<Rightarrow> ReviewIssue list" where
  "article_length_issues text =
     (let word_count = length (split_ws text)
      in if 800 < word_count
         then [\<lparr>category = ''News Article Standards'', severity = SUGGESTION,
                message = ''Article is lengthy ('' @ str_nat word_count @ '' words)'',
                suggestion = ''Web news articles are most effective at 400-600 words. Consider breaking into multiple articles or adding subheadings'',
                line_number = 0, context = [], flagged_text = []\<rparr>]
         else [])"

definition check_news_article_standards :: "BillieJean \<Rightarrow> py_error + BillieJean" where
  "check_news_article_standards s =
     Inr (append_issues
       (title_case_issues (content_lines s) @ opening_issues (content_lines s)
        @ article_length_issues (content s)) s)"

subsection \<open>check\_seo\<close>

definition meta_description_pattern :: regex where
  \<comment> \<open>\<open><meta\s+name=["\']description["\']\<close>\<close>
  "meta_description_pattern =
     Cat [Str ''<meta'', Plus (In [CSpace]), Str ''name='', One (In [CChar dquote, CChar squote]),
          Str ''description'', One (In [CChar dquote, CChar squote])]"

definition meta_content_pattern :: regex where
  \<comment> \<open>\<open><meta\s+name=["\']description["\']\s+content=["\']([^"\']*)["\']\<close>\<close>
  "meta_content_pattern =
     Cat [Str ''<meta'', Plus (In [CSpace]), Str ''name='', One (In [CChar dquote, CChar squote]),
          Str ''description'', One (In [CChar dquote, CChar squote]),
          Plus (In [CSpace]), Str ''content='', One (In [CChar dquote, CChar squote]),
          Grp 1 (Star (NotIn [CChar dquote, CChar squote])), One (In [CChar dquote, CChar squote])]"

definition seo_issues :: "string \<Rightarrow> py_error + ReviewIssue list" where
  "seo_issues text =
     (let content_lower = lower text;
          has_meta_desc = (re_search meta_description_pattern text [IGNORECASE] \<noteq> None);
          missing =
            (if str_in ''<meta'' content_lower \<and> \<not> has_meta_desc
             then [\<lparr>category = ''SEO'', severity = WARNING,
                    message = ''Missing meta description'',
                    suggestion = ''Add meta description (150-160 characters) to improve search visibility'',
                    line_number = 0, context = [], flagged_text = []\<rparr>]
             else [])
      in if has_meta_desc
         then
           (case re_search meta_content_pattern text [IGNORECASE] of
              None \<Rightarrow> Inr missing
            | Some meta_match \<Rightarrow>
                and_then (py_len (group meta_match 1))
                  (\<lambda>desc_len.
                     if desc_len < 120
                     then Inr (missing @
                            [\<lparr>category = ''SEO'', severity = SUGGESTION,
                              message = ''Meta description is short ('' @ str_nat desc_len @ '' characters)'',
                              suggestion = ''Aim for 150-160 characters for optimal search result display'',
                              line_number = 0, context = [], flagged_text = []\<rparr>])
                     else if 160 < desc_len
                     then Inr (missing @
                            [\<lparr>category = ''SEO'', severity = WARNING,
                              message = ''Meta description is too long ('' @ str_nat desc_len @ '' characters)'',
                              suggestion = ''Keep under 160 characters to avoid truncation in search results'',
                              line_number = 0, context = [], flagged_text = []\<rparr>])
                     else Inr missing))
         else Inr missing)"

definition check_seo :: "BillieJean \<Rightarrow> py_error + BillieJean" where
  "check_seo s = and_then (seo_issues (content s)) (\<lambda>found. Inr (append_issues found s))"

subsection \<open>check\_target\_audience\<close>

definition technical_word :: regex where
  \<comment> \<open>\<open>\b(?:parameter|algorithm|methodology|analysis|data|system)\b\<close>\<close>
  "technical_word =
     Cat [WordB,
          Alt [Str ''parameter'', Str ''algorithm'', Str ''methodology'', Str ''analysis'',
               Str ''data'', Str ''system''],
          WordB]"

definition audience_indicators :: "string list" where
  "audience_indicators = [''public'', ''everyone'', ''people'', ''communities'', ''citizens'']"

definition audience_issues :: "string \<Rightarrow> py_error + ReviewIssue list" where
  "audience_issues text =
     (let content_lower = lower text;
          technical_density = length (re_finditer technical_word content_lower []);
          total_words = length (split_ws text)
      in if 0 < total_words
         then and_then (truediv technical_density total_words)
                (\<lambda>ratio.
                   if fl (5 / 100) < ratio
                      \<and> \<not> list_ex (\<lambda>ind. str_in ind content_lower) audience_indicators
                   then Inr [\<lparr>category = ''Target Audience'', severity = WARNING,
                              message = ''Content appears highly technical'',
                              suggestion = ''WMO content serves diverse audiences (public, policymakers, journalists, scientists). Consider adding context or explanations for general readers'',
                              line_number = 0, context = [], flagged_text = []\<rparr>]
                   else Inr [])
         else Inr [])"

definition check_target_audience :: "BillieJean \<Rightarrow> py_error + BillieJean" where
  "check_target_audience s = and_then (audience_issues (content s)) (\<lambda>found. Inr (append_issues found s))"

subsection \<open>check\_formatting\<close>

definition punctuation_pattern :: regex where
  \<comment> \<open>\<open>\w[.!?,;:][A-Z]\<close>\<close>
  "punctuation_pattern =
     Cat [One (In [CWord]),
          One (In [CChar CHR ''.'', CChar CHR ''!'', CChar CHR ''?'', CChar CHR '','', CChar CHR '';'', CChar CHR '':'']),
          One (In [CRange CHR ''A'' CHR ''Z''])]"

definition formatting_line_issues :: "int \<Rightarrow> string \<Rightarrow> ReviewIssue list" where
  "formatting_line_issues i line =
     (if str_in ''  '' line
      then [\<lparr>category = ''Formatting'', severity = ERROR,
             message = ''Multiple consecutive spaces found'',
             suggestion = ''Use single spaces between words'',
             line_number = i, context = [], flagged_text = []\<rparr>]
      else [])
     @
     (if re_search punctuation_pattern line [] \<noteq> None
      then [\<lparr>category = ''Formatting'', severity = ERROR,
             message = ''Missing space after punctuation'',
             suggestion = ''Add space after punctuation marks'',
             line_number = i, context = [], flagged_text = []\<rparr>]
      else [])"

definition check_formatting :: "BillieJean \<Rightarrow> py_error + BillieJean" where
  "check_formatting s =
     Inr (append_issues
       (concat (map (\<lambda>(i, line). formatting_line_issues i line) (enumerate1 (content_lines s)))) s)"

subsection \<open>check\_links\_and\_references\<close>

definition href_pattern :: regex where
  \<comment> \<open>\<open><a\s+(?:[^>]*?\s+)?href=["\']([^"\']*)["\']\<close>\<close>
  "href_pattern =
     Cat [Str ''<a'', Plus (In [CSpace]),
          Opt (Cat [StarLazy (NotIn [CChar CHR ''>'']), Plus (In [CSpace])]),
          Str ''href='', One (In [CChar dquote, CChar squote]),
          Grp 1 (Star (NotIn [CChar dquote, CChar squote])), One (In [CChar dquote, CChar squote])]"

definition md_link_pattern :: regex where
  \<comment> \<open>\<open>\[([^\]]+)\]\(([^)]+)\)\<close>\<close>
  "md_link_pattern =
     Cat [Str ''['', Grp 1 (Plus (NotIn [CChar CHR '']''])), Str ''](''  ,
          Grp 2 (Plus (NotIn [CChar CHR '')''])), Str '')'']"

definition falsy :: "string option \<Rightarrow> bool" where
  \<comment> \<open>\<open>not url\<close>\<close>
  "falsy x \<longleftrightarrow> x = None \<or> x = Some []"

definition placeholder_issue :: "int \<Rightarrow> ReviewIssue" where
  "placeholder_issue line_num =
     \<lparr>category = ''Links'', severity = ERROR,
      message = ''Empty or placeholder link'',
      suggestion = ''Provide valid URL or remove link'',
      line_number = line_num, context = [], flagged_text = []\<rparr>"

definition html_link_issues :: "string \<Rightarrow> py_error + ReviewIssue list" where
  "html_link_issues text =
     for_each (re_finditer href_pattern text [IGNORECASE])
       (\<lambda>m acc.
          let url = group m 1; line_num = line_of text (m_start m)
          in if falsy url \<or> url \<in> set [Some ''#'', Some []]
             then Inr (acc @ [placeholder_issue line_num])
             else (case url of
                     None \<Rightarrow> Inl AttributeError
                   | Some u \<Rightarrow>
                       if startswith u ''http://'' \<and> \<not> str_in ''localhost'' u
                       then Inr (acc @
                              [\<lparr>category = ''Links'', severity = WARNING,
                                message = ''Link uses HTTP instead of HTTPS'',
                                suggestion = ''Use HTTPS for security and SEO'',
                                line_number = line_num, context = [], flagged_text = u\<rparr>])
                       else Inr acc))
       []"

definition md_link_issues :: "string \<Rightarrow> ReviewIssue list" where
  "md_link_issues text =
     concat (map (\<lambda>m.
       let url = group m 2; line_num = line_of text (m_start m)
       in if falsy url \<or> url = Some ''#'' then [placeholder_issue line_num] else [])
       (re_finditer md_link_pattern text []))"

definition check_links_and_references :: "BillieJean \<Rightarrow> py_error + BillieJean" where
  "check_links_and_references s =
     and_then (html_link_issues (content s))
       (\<lambda>found. Inr (append_issues (md_link_issues (content s)) (append_issues found s)))"

section \<open>BillieJean.review\<close>

definition sort_issues :: "ReviewIssue list \<Rightarrow> ReviewIssue list" where
  \<comment> \<open>\<open>sorted(self.issues, key=lambda x: (x.severity.value, x.line_number))\<close>: a stable sort
     on the pair of the severity's name, compared as a string, and the line number\<close>
  "sort_issues xs = sort_key (\<lambda>x. (severity_value (severity x), line_number x)) xs"

definition start_review :: "string \<Rightarrow> BillieJean \<Rightarrow> BillieJean" where
  \<comment> \<open>the five assignments that open \<open>review\<close>\<close>
  "start_review text s =
     s\<lparr>content := text, content_lines := split_on newline text, issues := [],
       strategic_alignment := StrategicAlignment_new, defined_abbreviations := {}\<rparr>"

definition run_checks :: "BillieJean \<Rightarrow> py_error + BillieJean" where
  "run_checks s =
     run_all
       ([check_strategic_alignment, check_style_guide_compliance, check_accessibility_wcag,
         check_readability, check_terminology, check_abbreviations]
        @ (if content_type s = NEWS_ARTICLE then [check_news_article_standards] else [])
        @ [check_seo, check_target_audience, check_formatting, check_links_and_references]) s"

definition review :: "BillieJean \<Rightarrow> string \<Rightarrow> py_error + ((ReviewIssue list \<times> StrategicAlignment) \<times> BillieJean)" where
  \<comment> \<open>the returned pair, and the reviewer as the call leaves it\<close>
  "review s text =
     and_then (run_checks (start_review text s))
       (\<lambda>s'. Inr ((sort_issues (issues s'), strategic_alignment s'), s'))"

definition filter_by_severity :: "string set \<Rightarrow> ReviewIssue list \<Rightarrow> ReviewIssue list" where
  \<comment> \<open>\<open>[i for i in issues if i.severity.value in severity_filter]\<close> of \<open>main\<close>\<close>
  "filter_by_severity severity_filter xs =
     filter (\<lambda>i. severity_value (severity i) \<in> severity_filter) xs"

section \<open>Exceptions and iteration: basic facts\<close>

lemma and_then_Inr [simp]: "and_then (Inr v) f = f v"
  by (simp add: and_then_def)

lemma and_then_Inl [simp]: "and_then (Inl e) f = Inl e"
  by (simp add: and_then_def)

lemma and_then_eq_Inr: "and_then m f = Inr r \<longleftrightarrow> (\<exists>v. m = Inr v \<and> f v = Inr r)"
  by (cases m) simp_all

lemma for_each_invariant:
  assumes "P a0"
    and "\<And>x a. x \<in> set xs \<Longrightarrow> P a \<Longrightarrow> \<exists>a'. body x a = Inr a' \<and> P a'"
  shows "\<exists>r. for_each xs body a0 = Inr r \<and> P r"
  using assms
proof (induction xs arbitrary: a0)
  case Nil
  then show ?case by simp
next
  case (Cons x xs)
  from Cons.prems obtain a' where a': "body x a0 = Inr a'" "P a'"
    by (meson list.set_intros(1))
  have "\<exists>r. for_each xs body a' = Inr r \<and> P r"
    by (rule Cons.IH [OF a'(2)]) (simp add: Cons.prems(2))
  with a' show ?case by simp
qed

definition match_of :: "flag list \<Rightarrow> regex \<Rightarrow> rematch \<Rightarrow> bool" where
  "match_of fs r m \<longleftrightarrow>
     (\<exists>pre post s'. s' \<in> set (rmatch fs r \<lparr>seen = pre, rest = post, caps = []\<rparr>)
        \<and> m_groups m = caps s' \<and> m_start m = length pre \<and> m_end m = length (seen s')
        \<and> m_text m = rev (take (length (seen s') - length pre) (seen s')))"

lemma match_at_match_of:
  assumes "match_at fs r pre post = Some m"
  shows "match_of fs r m"
proof -
  from assms obtain s' ss where r: "rmatch fs r \<lparr>seen = pre, rest = post, caps = []\<rparr> = s' # ss"
    and m: "m = \<lparr>m_start = length pre, m_end = length (seen s'),
                m_text = rev (take (length (seen s') - length pre) (seen s')),
                m_groups = caps s'\<rparr>"
    by (auto simp: match_at_def split: list.splits)
  from r have "s' \<in> set (rmatch fs r \<lparr>seen = pre, rest = post, caps = []\<rparr>)" by simp
  with m show ?thesis unfolding match_of_def by auto
qed

lemma scan_match_of: "scan fs r pre post = Some m \<Longrightarrow> match_of fs r m"
proof (induction post arbitrary: pre)
  case Nil
  then show ?case by (simp add: match_at_match_of)
next
  case (Cons c cs)
  show ?case
  proof (cases "match_at fs r pre (c # cs)")
    case None
    with Cons.prems have "scan fs r (c # pre) cs = Some m" by simp
    then show ?thesis by (rule Cons.IH)
  next
    case (Some m0)
    with Cons.prems have "m0 = m" by simp
    with Some show ?thesis by (simp add: match_at_match_of)
  qed
qed

lemma iter_from_match_of: "m \<in> set (iter_from fs r pre post) \<Longrightarrow> match_of fs r m"
proof (induction fs r pre post rule: iter_from.induct)
  case (1 fs r pre post)
  show ?case
  proof (cases "scan fs r pre post")
    case None
    with "1.prems" show ?thesis by (simp add: iter_from.simps [of fs r pre post])
  next
    case (Some m0)
    define n where "n = (if m_start m0 < m_end m0 then m_end m0 - length pre else Suc (m_start m0 - length pre))"
    show ?thesis
    proof (cases "m = m0")
      case True
      with Some show ?thesis by (simp add: scan_match_of)
    next
      case False
      with "1.prems" Some have "0 < n \<and> n \<le> length post" and
        "m \<in> set (iter_from fs r (rev (take n post) @ pre) (drop n post))"
        by (auto simp: iter_from.simps [of fs r pre post] n_def Let_def split: if_splits)
      then show ?thesis
        using "1.IH" [OF Some n_def] by simp
    qed
  qed
qed

lemma re_search_match_of: "re_search r s fs = Some m \<Longrightarrow> match_of fs r m"
  by (simp add: re_search_def scan_match_of)

lemma re_match_match_of: "re_match r s fs = Some m \<Longrightarrow> match_of fs r m"
  by (simp add: re_match_def match_at_match_of)


lemma re_finditer_match_of: "m \<in> set (re_finditer r s fs) \<Longrightarrow> match_of fs r m"
  by (simp add: re_finditer_def iter_from_match_of)

section \<open>Facts about the matcher\<close>

lemma caps_advance [simp]: "caps (advance n s) = caps s"
  by (simp add: advance_def)

lemma seen_advance [simp]: "seen (advance n s) = rev (take n (rest s)) @ seen s"
  by (simp add: advance_def)

lemma rest_advance [simp]: "rest (advance n s) = drop n (rest s)"
  by (simp add: advance_def)

lemma caps_capture [simp]:
  "caps (capture n s s') = (n, rev (take (length (seen s') - length (seen s)) (seen s'))) # caps s'"
  by (simp add: capture_def)

lemma seen_capture [simp]: "seen (capture n s s') = seen s'"
  by (simp add: capture_def)

lemma rest_capture [simp]: "rest (capture n s s') = rest s'"
  by (simp add: capture_def)

fun grps :: "regex \<Rightarrow> nat set" where
  "grps (Grp n r) = insert n (grps r)"
| "grps (Opt r) = grps r"
| "grps (Cat rs) = (\<Union>r\<in>set rs. grps r)"
| "grps (Alt rs) = (\<Union>r\<in>set rs. grps r)"
| "grps _ = {}"

lemma rmatch_cat_Cons:
  "s' \<in> set (rmatch_cat fs (r # rs) s) \<longleftrightarrow> (\<exists>s1\<in>set (rmatch fs r s). s' \<in> set (rmatch_cat fs rs s1))"
  by auto

lemma rmatch_keeps_other_groups:
  "s' \<in> set (rmatch fs r s) \<Longrightarrow> n \<notin> grps r \<Longrightarrow> map_of (caps s') n = map_of (caps s) n"
  "s' \<in> set (rmatch_cat fs rs s) \<Longrightarrow> n \<notin> (\<Union>r\<in>set rs. grps r) \<Longrightarrow> map_of (caps s') n = map_of (caps s) n"
  "s' \<in> set (rmatch_alt fs rs s) \<Longrightarrow> n \<notin> (\<Union>r\<in>set rs. grps r) \<Longrightarrow> map_of (caps s') n = map_of (caps s) n"
proof (induction fs r s and fs rs s and fs rs s arbitrary: s' and s' and s' rule: rmatch_rmatch_cat_rmatch_alt.induct)
  case (1 fs a s)
  then show ?case by (auto split: list.splits if_splits)
next
  case (2 fs w s)
  then show ?case by (auto split: if_splits)
next
  case (3 fs a mn mx greedy s)
  then show ?case by auto
next
  case (4 fs r s)
  then show ?case by auto
next
  case (5 fs n r s)
  then show ?case by auto
next
  case (6 fs n s)
  then show ?case by (auto split: option.splits if_splits)
next
  case (13 fs r rs s)
  from "13.prems"(1) obtain s1 where s1: "s1 \<in> set (rmatch fs r s)" "s' \<in> set (rmatch_cat fs rs s1)"
    by auto
  from "13.prems"(2) have "n \<notin> grps r" "n \<notin> (\<Union>r\<in>set rs. grps r)" by auto
  then show ?case
    using "13.IH"(1) [OF s1(1)] "13.IH"(2) [OF s1(1) s1(2)] by simp
qed (auto split: if_splits)

fun binds :: "nat \<Rightarrow> regex \<Rightarrow> bool" where
  "binds n (Grp k r) \<longleftrightarrow> k = n \<or> binds n r"
| "binds n (Cat rs) \<longleftrightarrow> (\<exists>r\<in>set rs. binds n r)"
| "binds n (Alt rs) \<longleftrightarrow> (\<forall>r\<in>set rs. binds n r)"
| "binds n _ \<longleftrightarrow> False"

lemma rmatch_binds:
  "s' \<in> set (rmatch fs r s) \<Longrightarrow> binds n r \<or> map_of (caps s) n \<noteq> None \<Longrightarrow> map_of (caps s') n \<noteq> None"
  "s' \<in> set (rmatch_cat fs rs s) \<Longrightarrow> (\<exists>r\<in>set rs. binds n r) \<or> map_of (caps s) n \<noteq> None \<Longrightarrow> map_of (caps s') n \<noteq> None"
  "s' \<in> set (rmatch_alt fs rs s) \<Longrightarrow> (\<forall>r\<in>set rs. binds n r) \<or> map_of (caps s) n \<noteq> None \<Longrightarrow> map_of (caps s') n \<noteq> None"
proof (induction fs r s and fs rs s and fs rs s arbitrary: s' and s' and s' rule: rmatch_rmatch_cat_rmatch_alt.induct)
  case (1 fs a s)
  then show ?case by (auto split: list.splits if_splits)
next
  case (2 fs w s)
  then show ?case by (auto split: if_splits)
next
  case (3 fs a mn mx greedy s)
  then show ?case by auto
next
  case (4 fs r s)
  then show ?case by auto
next
  case (5 fs k r s)
  then show ?case by auto
next
  case (6 fs k s)
  then show ?case by (auto split: option.splits if_splits)
next
  case (13 fs r rs s)
  from "13.prems"(1) obtain s1 where s1: "s1 \<in> set (rmatch fs r s)" "s' \<in> set (rmatch_cat fs rs s1)"
    by auto
  show ?case
  proof (cases "binds n r \<or> map_of (caps s) n \<noteq> None")
    case True
    then have "map_of (caps s1) n \<noteq> None" by (rule "13.IH"(1) [OF s1(1)])
    then show ?thesis using "13.IH"(2) [OF s1(1) s1(2)] by simp
  next
    case False
    with "13.prems"(2) have "\<exists>r\<in>set rs. binds n r" by auto
    then show ?thesis using "13.IH"(2) [OF s1(1) s1(2)] by simp
  qed
next
  case (15 fs r rs s)
  from "15.prems"(1) have "s' \<in> set (rmatch fs r s) \<or> s' \<in> set (rmatch_alt fs rs s)" by auto
  then show ?case
  proof
    assume a: "s' \<in> set (rmatch fs r s)"
    from "15.prems"(2) have "binds n r \<or> map_of (caps s) n \<noteq> None" by auto
    then show ?thesis by (rule "15.IH"(1) [OF a])
  next
    assume a: "s' \<in> set (rmatch_alt fs rs s)"
    from "15.prems"(2) have "(\<forall>r\<in>set rs. binds n r) \<or> map_of (caps s) n \<noteq> None" by auto
    then show ?thesis by (rule "15.IH"(2) [OF a])
  qed
qed (auto split: if_splits)

lemma match_of_binds:
  assumes "match_of fs r m" and "binds n r"
  shows "map_of (m_groups m) n \<noteq> None"
  using assms rmatch_binds(1) [of _ fs r _ n]
  unfolding match_of_def by metis

lemma md_heading_group1: "match_of fs md_heading_pattern m \<Longrightarrow> \<exists>w. group m 1 = Some w"
  using match_of_binds [of fs md_heading_pattern m 1]
  by (simp add: md_heading_pattern_def group_def)

lemma meta_content_group1: "match_of fs meta_content_pattern m \<Longrightarrow> \<exists>w. group m 1 = Some w"
  using match_of_binds [of fs meta_content_pattern m 1]
  by (simp add: meta_content_pattern_def group_def)

lemma html_heading_group2: "match_of fs html_heading_pattern m \<Longrightarrow> \<exists>w. group m 2 = Some w"
  using match_of_binds [of fs html_heading_pattern m 2]
  by (simp add: html_heading_pattern_def group_def)

lemma digit_range_decimal:
  assumes "cset_match ic (CRange CHR ''1'' CHR ''6'') c"
  shows "isdecimal c"
proof -
  have l: "CHR ''1'' \<le> lower_char c \<Longrightarrow> lower_char c \<le> CHR ''6'' \<Longrightarrow> lower_char c = c"
    by (auto simp: lower_char_def less_eq_char_def split: if_splits)
  have u: "CHR ''1'' \<le> upper_char c \<Longrightarrow> upper_char c \<le> CHR ''6'' \<Longrightarrow> upper_char c = c"
    by (auto simp: upper_char_def less_eq_char_def split: if_splits)
  from assms l u have "CHR ''1'' \<le> c \<and> c \<le> CHR ''6''"
    by (auto split: if_splits)
  then show ?thesis
    by (auto simp: isdecimal_def less_eq_char_def)
qed

lemma html_heading_group1:
  assumes "match_of fs html_heading_pattern m"
  shows "\<exists>c. group m 1 = Some [c] \<and> isdecimal c"
proof -
  from assms obtain pre post s' where
    s': "s' \<in> set (rmatch fs html_heading_pattern \<lparr>seen = pre, rest = post, caps = []\<rparr>)"
    and g: "m_groups m = caps s'"
    unfolding match_of_def by blast
  let ?tail = "[Star (NotIn [CChar CHR ''>'']), Str ''>'', Grp 2 (StarLazy AnyChar), Str ''</h'', Backref 1, Str ''>'']"
  from s' obtain s1 s2 where
    s1: "s1 \<in> set (rmatch fs (Str ''<h'') \<lparr>seen = pre, rest = post, caps = []\<rparr>)"
    and s2: "s2 \<in> set (rmatch fs (Grp 1 (One (In [CRange CHR ''1'' CHR ''6'']))) s1)"
    and s3: "s' \<in> set (rmatch_cat fs ?tail s2)"
    unfolding html_heading_pattern_def rmatch.simps(10) rmatch_cat_Cons by blast
  from s2 obtain c cs where r1: "rest s1 = c # cs"
    and c2: "cset_match (IGNORECASE \<in> set fs) (CRange CHR ''1'' CHR ''6'') c"
    and e2: "s2 = capture 1 s1 (advance 1 s1)"
    by (cases "rest s1") (auto split: if_splits)
  from r1 e2 have "map_of (caps s2) 1 = Some [c]" by simp
  note c = this c2
  have "map_of (caps s') 1 = map_of (caps s2) 1"
    by (rule rmatch_keeps_other_groups(2) [OF s3]) (simp add: Star_def StarLazy_def)
  with c g have "group m 1 = Some [c]" by (simp add: group_def)
  with digit_range_decimal [OF c(2)] show ?thesis by blast
qed

section \<open>The fallible checks never raise\<close>

lemma for_each_append:
  assumes "\<And>x acc. x \<in> set xs \<Longrightarrow> body x acc = Inr (acc @ g x)"
  shows "for_each xs body a0 = Inr (a0 @ concat (map g xs))"
  using assms
proof (induction xs arbitrary: a0)
  case Nil
  then show ?case by simp
next
  case (Cons x xs)
  have "body x a0 = Inr (a0 @ g x)" by (rule Cons.prems) simp
  moreover have "for_each xs body (a0 @ g x) = Inr ((a0 @ g x) @ concat (map g xs))"
    by (rule Cons.IH) (simp add: Cons.prems)
  ultimately show ?case by simp
qed

definition md_heading_of :: "int \<Rightarrow> string \<Rightarrow> heading list" where
  "md_heading_of i line =
     (case re_match md_heading_pattern line [] of
        None \<Rightarrow> []
      | Some m \<Rightarrow> (case group m 1 of None \<Rightarrow> [] | Some w \<Rightarrow> [(i, int (length w), group m 2)]))"

definition html_heading_of :: "int \<Rightarrow> rematch \<Rightarrow> heading list" where
  "html_heading_of i m =
     (case (group m 1, group m 2) of
        (Some [c], Some t) \<Rightarrow> [(i, int (digit_val c), Some (re_sub_empty tag_pattern t))]
      | _ \<Rightarrow> [])"

definition line_headings :: "int \<Rightarrow> string \<Rightarrow> heading list" where
  "line_headings i line =
     md_heading_of i line
     @ concat (map (html_heading_of i) (re_finditer html_heading_pattern line [IGNORECASE]))"

definition headings_of :: "string list \<Rightarrow> heading list" where
  "headings_of lines = concat (map (\<lambda>(i, line). line_headings i line) (enumerate1 lines))"

lemma md_heading_eq: "md_heading i line hs = Inr (hs @ md_heading_of i line)"
proof (cases "re_match md_heading_pattern line []")
  case None
  then show ?thesis by (simp add: md_heading_def md_heading_of_def)
next
  case (Some m)
  then obtain w where "group m 1 = Some w"
    using md_heading_group1 re_match_match_of by blast
  with Some show ?thesis by (simp add: md_heading_def md_heading_of_def py_len_def)
qed

lemma html_headings_eq:
  "html_headings i line hs =
     Inr (hs @ concat (map (html_heading_of i) (re_finditer html_heading_pattern line [IGNORECASE])))"
  unfolding html_headings_def
proof (rule for_each_append)
  fix m acc
  assume "m \<in> set (re_finditer html_heading_pattern line [IGNORECASE])"
  then have mo: "match_of [IGNORECASE] html_heading_pattern m" by (rule re_finditer_match_of)
  from html_heading_group1 [OF mo] obtain c where c: "group m 1 = Some [c]" "isdecimal c" by blast
  from html_heading_group2 [OF mo] obtain t where t: "group m 2 = Some t" by blast
  from c t show "and_then (py_int (group m 1))
          (\<lambda>level. and_then (re_sub_opt tag_pattern (group m 2)) (\<lambda>text. Inr (acc @ [(i, level, Some text)])))
        = Inr (acc @ html_heading_of i m)"
    by (simp add: py_int_def re_sub_opt_def html_heading_of_def)
qed

lemma collect_headings_eq: "collect_headings lines = Inr (headings_of lines)"
proof -
  have "for_each (enumerate1 lines)
          (\<lambda>(i, line) headings. and_then (md_heading i line headings) (html_headings i line)) []
        = Inr ([] @ concat (map (\<lambda>(i, line). line_headings i line) (enumerate1 lines)))"
    by (rule for_each_append) (auto simp: md_heading_eq html_headings_eq line_headings_def)
  then show ?thesis by (simp add: collect_headings_def headings_of_def)
qed

definition first_issue :: "heading list \<Rightarrow> ReviewIssue list" where
  "first_issue hs =
     (case hs of [] \<Rightarrow> [] | h # _ \<Rightarrow> if fst (snd h) \<noteq> 1 then [first_heading_issue (fst h)] else [])"

definition skip_at :: "heading list \<Rightarrow> nat \<Rightarrow> ReviewIssue list" where
  "skip_at hs idx =
     (let prev_level = fst (snd (hs ! (idx - 1))); curr_level = fst (snd (hs ! idx))
      in if prev_level + 1 < curr_level then [skip_issue prev_level curr_level (fst (hs ! idx))] else [])"

definition skip_issues :: "heading list \<Rightarrow> ReviewIssue list" where
  "skip_issues hs = concat (map (skip_at hs) [1..<length hs])"

lemma hierarchy_issues_eq: "hierarchy_issues hs = Inr (first_issue hs @ skip_issues hs)"
proof (cases hs)
  case Nil
  then show ?thesis by (simp add: hierarchy_issues_def first_issue_def skip_issues_def)
next
  case (Cons h t)
  have i0: "py_index hs 0 = Inr h" using Cons by (simp add: py_index_def)
  have "for_each [1..<length hs]
          (\<lambda>idx acc. and_then (py_index hs (idx - 1))
             (\<lambda>prev. and_then (py_index hs idx)
               (\<lambda>curr. let prev_level = fst (snd prev); curr_level = fst (snd curr)
                  in if prev_level + 1 < curr_level
                     then Inr (acc @ [skip_issue prev_level curr_level (fst curr)])
                     else Inr acc)))
          (first_issue hs)
        = Inr (first_issue hs @ concat (map (skip_at hs) [1..<length hs]))"
    by (rule for_each_append) (auto simp: py_index_def skip_at_def Let_def)
  with i0 Cons show ?thesis
    by (simp add: hierarchy_issues_def first_issue_def skip_issues_def)
qed

lemma sentence_length_total: "\<exists>r. sentence_length_issues text = Inr r"
  by (simp add: sentence_length_issues_def Let_def truediv_def)

lemma audience_total: "\<exists>r. audience_issues text = Inr r"
  by (simp add: audience_issues_def Let_def truediv_def)

lemma seo_total: "\<exists>r. seo_issues text = Inr r"
proof (cases "re_search meta_content_pattern text [IGNORECASE]")
  case None
  then show ?thesis by (simp add: seo_issues_def Let_def)
next
  case (Some m)
  then obtain w where "group m 1 = Some w"
    using meta_content_group1 re_search_match_of by blast
  with Some show ?thesis by (simp add: seo_issues_def Let_def py_len_def)
qed

definition html_link_of :: "string \<Rightarrow> rematch \<Rightarrow> ReviewIssue list" where
  "html_link_of text m =
     (let url = group m 1; line_num = line_of text (m_start m)
      in if falsy url \<or> url \<in> set [Some ''#'', Some []] then [placeholder_issue line_num]
         else (case url of
                 None \<Rightarrow> []
               | Some u \<Rightarrow>
                   if startswith u ''http://'' \<and> \<not> str_in ''localhost'' u
                   then [\<lparr>category = ''Links'', severity = WARNING,
                          message = ''Link uses HTTP instead of HTTPS'',
                          suggestion = ''Use HTTPS for security and SEO'',
                          line_number = line_num, context = [], flagged_text = u\<rparr>]
                   else []))"

lemma html_link_issues_eq:
  "html_link_issues text = Inr (concat (map (html_link_of text) (re_finditer href_pattern text [IGNORECASE])))"
proof -
  have "for_each (re_finditer href_pattern text [IGNORECASE])
       (\<lambda>m acc.
          let url = group m 1; line_num = line_of text (m_start m)
          in if falsy url \<or> url \<in> set [Some ''#'', Some []]
             then Inr (acc @ [placeholder_issue line_num])
             else (case url of
                     None \<Rightarrow> Inl AttributeError
                   | Some u \<Rightarrow>
                       if startswith u ''http://'' \<and> \<not> str_in ''localhost'' u
                       then Inr (acc @
                              [\<lparr>category = ''Links'', severity = WARNING,
                                message = ''Link uses HTTP instead of HTTPS'',
                                suggestion = ''Use HTTPS for security and SEO'',
                                line_number = line_num, context = [], flagged_text = u\<rparr>])
                       else Inr acc))
       [] = Inr ([] @ concat (map (html_link_of text) (re_finditer href_pattern text [IGNORECASE])))"
    by (rule for_each_append) (auto simp: html_link_of_def Let_def falsy_def split: option.splits)
  then show ?thesis by (simp add: html_link_issues_def)
qed

definition abbr_step :: "int \<Rightarrow> string \<Rightarrow> string \<times> string \<Rightarrow> ReviewIssue list \<times> string set \<Rightarrow> ReviewIssue list \<times> string set" where
  "abbr_step i line = (\<lambda>(abbrev, full_form) (acc, seen_set).
     if str_in abbrev line
     then
       if is_defined abbrev full_form line then (acc, insert abbrev seen_set)
       else if abbrev \<notin> seen_set \<and> abbrev \<noteq> ''WMO''
       then (acc @ [abbreviation_issue i abbrev full_form], insert abbrev seen_set)
       else (acc, seen_set)
     else (acc, seen_set))"

definition abbr_scan :: "string list \<Rightarrow> ReviewIssue list \<times> string set" where
  "abbr_scan lines =
     fold (\<lambda>(i, line) st. fold (abbr_step i line) WMO_ABBREVIATIONS st) (enumerate1 lines) ([], {})"

definition put :: "ReviewIssue list \<times> string set \<Rightarrow> BillieJean \<Rightarrow> BillieJean" where
  "put st s = s\<lparr>issues := fst st, defined_abbreviations := snd st\<rparr>"

lemma abbreviation_step_put:
  "abbreviation_step i line p (put st s) = put (abbr_step i line p st) s"
  by (cases p; cases st) (simp add: abbreviation_step_def abbr_step_def put_def append_issues_def)

lemma fold_abbreviation_step_put:
  "fold (abbreviation_step i line) ps (put st s) = put (fold (abbr_step i line) ps st) s"
  by (induction ps arbitrary: st) (simp_all add: abbreviation_step_put)

lemma fold_lines_put:
  "fold (\<lambda>(i, line) s. fold (abbreviation_step i line) ps s) els (put st s)
   = put (fold (\<lambda>(i, line) st. fold (abbr_step i line) ps st) els st) s"
proof (induction els arbitrary: st)
  case Nil
  then show ?case by simp
next
  case (Cons e els)
  show ?case
    by (cases e) (simp add: fold_abbreviation_step_put Cons.IH)
qed

lemma abbr_step_prefix:
  "\<exists>new. fst (abbr_step i line p (acc, d)) = acc @ new"
  by (cases p) (simp add: abbr_step_def)

definition appending :: "('x \<Rightarrow> 'a list \<times> 'd \<Rightarrow> 'a list \<times> 'd) \<Rightarrow> bool" where
  "appending f \<longleftrightarrow> (\<forall>x acc d. f x (acc, d) = (acc @ fst (f x ([], d)), snd (f x ([], d))))"

lemma fold_appending:
  assumes "appending f"
  shows "fold f xs (acc, d) = (acc @ fst (fold f xs ([], d)), snd (fold f xs ([], d)))"
proof (induction xs arbitrary: acc d)
  case Nil
  then show ?case by simp
next
  case (Cons x xs)
  from assms have 1: "f x (acc, d) = (acc @ fst (f x ([], d)), snd (f x ([], d)))"
    unfolding appending_def by blast
  have 2: "fold f xs (acc @ fst (f x ([], d)), snd (f x ([], d)))
        = ((acc @ fst (f x ([], d))) @ fst (fold f xs ([], snd (f x ([], d)))), snd (fold f xs ([], snd (f x ([], d)))))"
    by (rule Cons.IH)
  have 3: "fold f xs (f x ([], d))
        = (fst (f x ([], d)) @ fst (fold f xs ([], snd (f x ([], d)))), snd (fold f xs ([], snd (f x ([], d)))))"
    using Cons.IH [of "fst (f x ([], d))" "snd (f x ([], d))"] by simp
  show ?case by (simp add: 1 2 3)
qed

lemma appending_abbr_step: "appending (abbr_step i line)"
  unfolding appending_def by (auto simp: abbr_step_def)

lemma appending_abbr_line: "appending (\<lambda>(i, line) st. fold (abbr_step i line) ps st)"
  unfolding appending_def
proof (intro allI)
  fix x :: "int \<times> string" and acc :: "ReviewIssue list" and d :: "string set"
  obtain i line where x: "x = (i, line)" by (cases x)
  show "(case x of (i, line) \<Rightarrow> \<lambda>st. fold (abbr_step i line) ps st) (acc, d) =
         (acc @ fst ((case x of (i, line) \<Rightarrow> \<lambda>st. fold (abbr_step i line) ps st) ([], d)),
          snd ((case x of (i, line) \<Rightarrow> \<lambda>st. fold (abbr_step i line) ps st) ([], d)))"
    unfolding x using fold_appending [OF appending_abbr_step, of i line ps acc d] by simp
qed

lemma check_abbreviations_eq:
  "check_abbreviations s =
     Inr (s\<lparr>issues := issues s @ fst (fold (\<lambda>(i, line) st. fold (abbr_step i line) WMO_ABBREVIATIONS st)
              (enumerate1 (content_lines s)) ([], defined_abbreviations s)),
           defined_abbreviations := snd (fold (\<lambda>(i, line) st. fold (abbr_step i line) WMO_ABBREVIATIONS st)
              (enumerate1 (content_lines s)) ([], defined_abbreviations s))\<rparr>)"
proof -
  let ?f = "\<lambda>(i, line) st. fold (abbr_step i line) WMO_ABBREVIATIONS st"
  have s: "s = put (issues s, defined_abbreviations s) s" by (simp add: put_def)
  have "check_abbreviations s =
      Inr (fold (\<lambda>(i, line) s. fold (abbreviation_step i line) WMO_ABBREVIATIONS s)
            (enumerate1 (content_lines s)) (put (issues s, defined_abbreviations s) s))"
    by (simp add: check_abbreviations_def put_def)
  also have "\<dots> = Inr (put (fold ?f (enumerate1 (content_lines s)) (issues s, defined_abbreviations s)) s)"
    by (simp only: fold_lines_put)
  also have "fold ?f (enumerate1 (content_lines s)) (issues s, defined_abbreviations s)
      = (issues s @ fst (fold ?f (enumerate1 (content_lines s)) ([], defined_abbreviations s)),
         snd (fold ?f (enumerate1 (content_lines s)) ([], defined_abbreviations s)))"
    by (rule fold_appending [OF appending_abbr_line])
  finally show ?thesis
    by (simp add: put_def)
qed

section \<open>A closed form of review\<close>

definition all_issues :: "ContentType \<Rightarrow> string \<Rightarrow> ReviewIssue list" where
  "all_issues ct text =
     (let lines = split_on newline text;
          a = scan_priorities (lower text) StrategicAlignment_new;
          hs = headings_of lines
      in (if get_coverage a < 20 then [alignment_issue] else [])
         @ concat (map (\<lambda>(i, line). style_line_issues i line) (enumerate1 lines))
         @ image_issues text @ first_issue hs @ skip_issues hs @ generic_link_issues text
         @ projr (sentence_length_issues text) @ jargon_issues text
         @ concat (map (\<lambda>(i, line). terminology_line_issues i line) (enumerate1 lines))
         @ fst (abbr_scan lines)
         @ (if ct = NEWS_ARTICLE
            then title_case_issues lines @ opening_issues lines @ article_length_issues text
            else [])
         @ projr (seo_issues text) @ projr (audience_issues text)
         @ concat (map (\<lambda>(i, line). formatting_line_issues i line) (enumerate1 lines))
         @ concat (map (html_link_of text) (re_finditer href_pattern text [IGNORECASE]))
         @ md_link_issues text)"

definition final_state :: "ContentType \<Rightarrow> string \<Rightarrow> BillieJean" where
  "final_state ct text =
     \<lparr>content_type = ct, issues = all_issues ct text, content = text,
      content_lines = split_on newline text,
      strategic_alignment = scan_priorities (lower text) StrategicAlignment_new,
      defined_abbreviations = snd (abbr_scan (split_on newline text))\<rparr>"

lemma check_strategic_alignment_eq:
  "check_strategic_alignment s =
     Inr (s\<lparr>strategic_alignment := scan_priorities (lower (content s)) (strategic_alignment s),
           issues := issues s @
             (if get_coverage (scan_priorities (lower (content s)) (strategic_alignment s)) < 20
              then [alignment_issue] else [])\<rparr>)"
  by (simp add: check_strategic_alignment_def Let_def append_issues_def)

lemma check_accessibility_wcag_eq:
  "check_accessibility_wcag s =
     Inr (s\<lparr>issues := issues s @ image_issues (content s) @ first_issue (headings_of (content_lines s))
             @ skip_issues (headings_of (content_lines s)) @ generic_link_issues (content s)\<rparr>)"
  by (simp add: check_accessibility_wcag_def Let_def append_issues_def collect_headings_eq
      hierarchy_issues_eq)

lemma check_readability_eq:
  "check_readability s =
     Inr (s\<lparr>issues := issues s @ projr (sentence_length_issues (content s)) @ jargon_issues (content s)\<rparr>)"
proof -
  obtain r where "sentence_length_issues (content s) = Inr r"
    using sentence_length_total by blast
  then show ?thesis by (simp add: check_readability_def append_issues_def)
qed

lemma check_seo_eq:
  "check_seo s = Inr (s\<lparr>issues := issues s @ projr (seo_issues (content s))\<rparr>)"
proof -
  obtain r where "seo_issues (content s) = Inr r" using seo_total by blast
  then show ?thesis by (simp add: check_seo_def append_issues_def)
qed

lemma check_target_audience_eq:
  "check_target_audience s = Inr (s\<lparr>issues := issues s @ projr (audience_issues (content s))\<rparr>)"
proof -
  obtain r where "audience_issues (content s) = Inr r" using audience_total by blast
  then show ?thesis by (simp add: check_target_audience_def append_issues_def)
qed

lemma check_links_and_references_eq:
  "check_links_and_references s =
     Inr (s\<lparr>issues := issues s
             @ concat (map (html_link_of (content s)) (re_finditer href_pattern (content s) [IGNORECASE]))
             @ md_link_issues (content s)\<rparr>)"
  by (simp add: check_links_and_references_def append_issues_def html_link_issues_eq)

lemmas check_eqs =
  check_strategic_alignment_eq check_style_guide_compliance_def check_accessibility_wcag_eq
  check_readability_eq check_terminology_def check_abbreviations_eq
  check_news_article_standards_def check_seo_eq check_target_audience_eq check_formatting_def
  check_links_and_references_eq

lemma run_checks_eq:
  "run_checks (start_review text s) = Inr (final_state (content_type s) text)"
proof (cases s)
  case (fields ct iss c cl sa da)
  show ?thesis
  proof (cases "ct = NEWS_ARTICLE")
    case True
    with fields show ?thesis
      by (simp add: run_checks_def start_review_def check_eqs append_issues_def
          final_state_def all_issues_def abbr_scan_def Let_def)
  next
    case False
    with fields show ?thesis
      by (simp add: run_checks_def start_review_def check_eqs append_issues_def
          final_state_def all_issues_def abbr_scan_def Let_def)
  qed
qed

lemma review_eq:
  "review s text =
     Inr ((sort_issues (all_issues (content_type s) text),
           scan_priorities (lower text) StrategicAlignment_new),
          final_state (content_type s) text)"
  by (simp add: review_def run_checks_eq) (simp add: final_state_def)

section \<open>Strategic coverage\<close>

lemma coverage_0: "fmul (fl (of_nat 0 / of_nat 5)) 100 = 0" by code_simp
lemma coverage_1: "fmul (fl (of_nat 1 / of_nat 5)) 100 = 20" by code_simp
lemma coverage_2: "fmul (fl (of_nat 2 / of_nat 5)) 100 = 40" by code_simp
lemma coverage_3: "fmul (fl (of_nat 3 / of_nat 5)) 100 = 60" by code_simp
lemma coverage_4: "fmul (fl (of_nat 4 / of_nat 5)) 100 = 80" by code_simp
lemma coverage_5: "fmul (fl (of_nat 5 / of_nat 5)) 100 = 100" by code_simp

lemma covered_le_5: "covered a \<le> 5"
  by (simp add: covered_def of_bool_def)

lemma coverage_of_count:
  assumes "k \<le> 5"
  shows "fmul (fl (of_nat k / of_nat 5)) 100 = 20 * of_nat k"
proof -
  from assms have "k = 0 \<or> k = 1 \<or> k = 2 \<or> k = 3 \<or> k = 4 \<or> k = 5" by arith
  then show ?thesis
    using coverage_0 coverage_1 coverage_2 coverage_3 coverage_4 coverage_5
    by (elim disjE) simp_all
qed

lemma get_coverage_eq: "get_coverage a = 20 * of_nat (covered a)"
  unfolding get_coverage_def by (rule coverage_of_count [OF covered_le_5])

text \<open>
  C10. The coverage computed by \<open>get_coverage\<close>, in binary64 arithmetic, is 20 times the
  number of flags that are true, hence one of 0.0, 20.0, 40.0, 60.0, 80.0 and 100.0. This holds
  of every alignment record, so of the one any review returns.
\<close>

theorem get_coverage_six_values:
  "get_coverage a = 20 * of_nat (covered a)
   \<and> covered a = length (filter id [earth_system_monitoring a, early_warnings a, climate_action a,
        capacity_development a, hydrometeorological_services a])
   \<and> get_coverage a \<in> {0, 20, 40, 60, 80, 100}"
proof -
  have k: "covered a \<le> 5" by (rule covered_le_5)
  have v: "get_coverage a = 20 * of_nat (covered a)" by (rule get_coverage_eq)
  have c: "covered a = length (filter id [earth_system_monitoring a, early_warnings a, climate_action a,
        capacity_development a, hydrometeorological_services a])"
    by (simp add: covered_def)
  from k have "covered a = 0 \<or> covered a = 1 \<or> covered a = 2 \<or> covered a = 3 \<or> covered a = 4 \<or> covered a = 5"
    by arith
  then have "get_coverage a \<in> {0, 20, 40, 60, 80, 100}"
    unfolding v by (elim disjE) simp_all
  with v c show ?thesis by simp
qed

section \<open>Worked examples\<close>

lemma review_passive_italics:
  "map_sum id fst (review (BillieJean_init UNKNOWN) ''has been *x*'') =
     Inr ([alignment_issue,
           \<lparr>category = ''Style Guide - Voice'', severity = SUGGESTION,
            message = ''Passive voice detected'',
            suggestion = ''Consider using active voice for more direct, engaging communication'',
            line_number = 1, context = [], flagged_text = ''has been''\<rparr>,
           \<lparr>category = ''Style Guide - Formatting'', severity = WARNING,
            message = ''Possible use of italics detected'',
            suggestion = ''Italics should only be used for publication titles, Latin names, etc., not for emphasis in web content'',
            line_number = 1, context = [], flagged_text = []\<rparr>],
          StrategicAlignment_new)"
  by code_simp

lemma review_empty:
  "map_sum id fst (review (BillieJean_init UNKNOWN) []) = Inr ([alignment_issue], StrategicAlignment_new)"
  by code_simp

section \<open>Determinism\<close>

text \<open>
  C8. \<open>review\<close> is deterministic and keeps nothing from earlier calls: two reviewers of
  the same content type give the same result on the same text, whatever either reviewed
  before; a reviewer that has reviewed \<open>y\<close> reviews \<open>x\<close> as a fresh one does, and a second
  review of the same text returns the same issues, the same alignment and the same final
  state. The issue list, the alignment flags and the set of defined abbreviations are
  reset when the call starts.
\<close>

theorem review_deterministic:
  "(content_type s1 = content_type s2 \<longrightarrow> review s1 x = review s2 x)
   \<and> (\<forall>r s'. review s1 y = Inr (r, s') \<longrightarrow> review s' x = review s1 x)
   \<and> (\<forall>r s'. review s1 x = Inr (r, s') \<longrightarrow> review s' x = Inr (r, s'))
   \<and> issues (start_review x s1) = [] 
   \<and> strategic_alignment (start_review x s1) = StrategicAlignment_new
   \<and> defined_abbreviations (start_review x s1) = {}"
proof -
  have same: "review a t = review b t" if "content_type a = content_type b" for a b t
    by (simp only: review_eq that)
  have kept: "content_type s' = content_type a" if "review a t = Inr (r, s')" for a t r s'
  proof -
    from that have "s' = final_state (content_type a) t"
      unfolding review_eq by simp
    then show ?thesis by (simp add: final_state_def)
  qed
  have 1: "content_type s1 = content_type s2 \<longrightarrow> review s1 x = review s2 x"
    by (rule impI) (rule same)
  have 2: "\<forall>r s'. review s1 y = Inr (r, s') \<longrightarrow> review s' x = review s1 x"
  proof (intro allI impI)
    fix r s' assume "review s1 y = Inr (r, s')"
    then have "content_type s' = content_type s1" by (rule kept)
    then show "review s' x = review s1 x" by (rule same)
  qed
  have 3: "\<forall>r s'. review s1 x = Inr (r, s') \<longrightarrow> review s' x = Inr (r, s')"
  proof (intro allI impI)
    fix r s' assume a: "review s1 x = Inr (r, s')"
    then have "content_type s' = content_type s1" by (rule kept)
    then have "review s' x = review s1 x" by (rule same)
    with a show "review s' x = Inr (r, s')" by simp
  qed
  have 4: "issues (start_review x s1) = []"
    "strategic_alignment (start_review x s1) = StrategicAlignment_new"
    "defined_abbreviations (start_review x s1) = {}"
    by (simp_all add: start_review_def)
  show ?thesis by (intro conjI; fact)
qed

theorem review_deterministic_witness:
  "\<exists>r s'. review (BillieJean_init UNKNOWN) ''flood'' = Inr (r, s')
     \<and> content_type s' = content_type (BillieJean_init UNKNOWN)
     \<and> review s' ''has been *x*'' = review (BillieJean_init UNKNOWN) ''has been *x*''
     \<and> review s' ''flood'' = Inr (r, s')
     \<and> map_sum id fst (review s' ''has been *x*'')
        = map_sum id fst (review (BillieJean_init UNKNOWN) ''has been *x*'')"
proof -
  obtain r s' where r: "review (BillieJean_init UNKNOWN) ''flood'' = Inr (r, s')"
    unfolding review_eq by simp
  note t1 = review_deterministic [of "BillieJean_init UNKNOWN" s' "''has been *x*''" "''flood''"]
  note t2 = review_deterministic [of "BillieJean_init UNKNOWN" "BillieJean_init UNKNOWN" "''flood''" "''flood''"]
  have a: "review s' ''has been *x*'' = review (BillieJean_init UNKNOWN) ''has been *x*''"
    by (rule t1 [THEN conjunct2, THEN conjunct1, rule_format, OF r])
  have b: "review s' ''flood'' = Inr (r, s')"
    by (rule t2 [THEN conjunct2, THEN conjunct2, THEN conjunct1, rule_format, OF r])
  from r have "s' = final_state (content_type (BillieJean_init UNKNOWN)) ''flood''"
    unfolding review_eq by simp
  then have ct: "content_type s' = content_type (BillieJean_init UNKNOWN)"
    by (simp add: final_state_def)
  have c: "map_sum id fst (review s' ''has been *x*'')
        = map_sum id fst (review (BillieJean_init UNKNOWN) ''has been *x*'')"
    by (simp only: a)
  show ?thesis
    by (intro exI [of _ r] exI [of _ s'] conjI; fact)
qed

section \<open>The severity filter\<close>

lemma severity_value_inj: "severity_value a = severity_value b \<longleftrightarrow> a = b"
  by (cases a; cases b) simp_all

lemma filter_by_severity_enum:
  "filter_by_severity (severity_value ` S) xs = filter (\<lambda>i. severity i \<in> S) xs"
  unfolding filter_by_severity_def
  by (rule filter_cong) (auto simp: severity_value_inj image_iff)

lemma count_list_filter: "count_list (filter P xs) i = (if P i then count_list xs i else 0)"
  by (induction xs) auto

text \<open>
  C9. The severity filter of \<open>main\<close> keeps exactly the issues of the review whose severity
  is in the set, each as often as it occurs, in the order of the review, and it builds a new
  list out of the same issues.
\<close>

theorem severity_filter_is_subsequence:
  assumes "review s x = Inr ((found, a), s')"
  shows "filter_by_severity (severity_value ` S) found = filter (\<lambda>i. severity i \<in> S) found
     \<and> subseq (filter_by_severity F found) found
     \<and> (\<forall>i. count_list (filter_by_severity F found) i
              = (if severity_value (severity i) \<in> F then count_list found i else 0))
     \<and> set (filter_by_severity F found) = {i \<in> set found. severity_value (severity i) \<in> F}
     \<and> review s x = Inr ((found, a), s')"
  using assms
  by (simp add: filter_by_severity_enum) (simp add: filter_by_severity_def count_list_filter)

theorem severity_filter_is_subsequence_witness:
  "\<exists>found a s'. review (BillieJean_init UNKNOWN) ''has been *x*'' = Inr ((found, a), s')
     \<and> map severity found = [CRITICAL, SUGGESTION, WARNING]
     \<and> map severity (filter_by_severity (severity_value ` {CRITICAL, WARNING}) found) = [CRITICAL, WARNING]
     \<and> subseq (filter_by_severity {''CRITICAL'', ''WARNING''} found) found
     \<and> set (filter_by_severity {''CRITICAL'', ''WARNING''} found)
         = {i \<in> set found. severity_value (severity i) \<in> {''CRITICAL'', ''WARNING''}}"
proof -
  obtain found a s' where r: "review (BillieJean_init UNKNOWN) ''has been *x*'' = Inr ((found, a), s')"
    by (simp add: review_eq)
  then have "map_sum id fst (review (BillieJean_init UNKNOWN) ''has been *x*'') = Inr (found, a)"
    by simp
  with review_passive_italics have f: "map severity found = [CRITICAL, SUGGESTION, WARNING]"
    by (auto simp: alignment_issue_def)
  have e: "filter_by_severity (severity_value ` {CRITICAL, WARNING}) found
      = filter (\<lambda>i. severity i \<in> {CRITICAL, WARNING}) found"
    using severity_filter_is_subsequence [OF r, of "{CRITICAL, WARNING}"] by blast
  have m: "map severity (filter (\<lambda>i. severity i \<in> {CRITICAL, WARNING}) found)
      = filter (\<lambda>v. v \<in> {CRITICAL, WARNING}) (map severity found)"
    by (simp add: filter_map comp_def)
  have g: "map severity (filter_by_severity (severity_value ` {CRITICAL, WARNING}) found) = [CRITICAL, WARNING]"
    unfolding e m f by simp
  note t = severity_filter_is_subsequence [OF r, of "{CRITICAL, WARNING}" "{''CRITICAL'', ''WARNING''}"]
  show ?thesis
    apply (rule exI [of _ found], rule exI [of _ a], rule exI [of _ s'])
    using r f g t apply (intro conjI)
        apply (elim conjE, assumption)+
    done
qed



section \<open>The order of the issues\<close>

text \<open>
  C1. The sort key of \<open>review\<close> is the pair of the severity's name and the line number,
  and names compare as strings: CRITICAL, ERROR, SUGGESTION, WARNING. On the one-line
  document \<open>has been *x*\<close> the review returns the passive-voice SUGGESTION of line 1
  before the italics WARNING of line 1.
\<close>

theorem review_orders_suggestion_before_warning:
  "\<exists>found a s'. review (BillieJean_init UNKNOWN) ''has been *x*'' = Inr ((found, a), s')
     \<and> map (\<lambda>i. (severity i, line_number i)) found = [(CRITICAL, 0), (SUGGESTION, 1), (WARNING, 1)]"
proof -
  obtain found a s' where r: "review (BillieJean_init UNKNOWN) ''has been *x*'' = Inr ((found, a), s')"
    by (simp add: review_eq)
  then have "map_sum id fst (review (BillieJean_init UNKNOWN) ''has been *x*'') = Inr (found, a)"
    by simp
  with review_passive_italics
  have "map (\<lambda>i. (severity i, line_number i)) found = [(CRITICAL, 0), (SUGGESTION, 1), (WARNING, 1)]"
    by (auto simp: alignment_issue_def)
  with r show ?thesis
    by (intro exI [of _ found] exI [of _ a] exI [of _ s'] conjI)
qed

section \<open>Category and severity of the issues of each check\<close>

definition kind :: "ReviewIssue \<Rightarrow> string \<times> Severity" where
  "kind i = (category i, severity i)"

definition kinds_in :: "(string \<times> Severity) list \<Rightarrow> ReviewIssue list \<Rightarrow> bool" where
  "kinds_in K xs \<longleftrightarrow> list_all (\<lambda>i. kind i \<in> set K) xs"

lemma kinds_in_Nil [simp]: "kinds_in K []"
  by (simp add: kinds_in_def)

lemma kinds_in_append [simp]: "kinds_in K (xs @ ys) \<longleftrightarrow> kinds_in K xs \<and> kinds_in K ys"
  by (simp add: kinds_in_def)

lemma kinds_in_single: "kinds_in K [i] \<longleftrightarrow> kind i \<in> set K"
  by (simp add: kinds_in_def)

lemma kinds_in_concat_map:
  assumes "\<And>x. x \<in> set xs \<Longrightarrow> kinds_in K (f x)"
  shows "kinds_in K (concat (map f xs))"
  using assms by (induction xs) simp_all

lemma kinds_in_mono: "kinds_in K xs \<Longrightarrow> set K \<subseteq> set K' \<Longrightarrow> kinds_in K' xs"
  by (auto simp: kinds_in_def list_all_iff)

lemma filter_other_kind:
  assumes "kinds_in K xs" and "k \<notin> set K"
  shows "filter (\<lambda>i. kind i = k \<and> Q i) xs = []"
  using assms by (auto simp: filter_empty_conv kinds_in_def list_all_iff)

lemma kinds_capitalization: "kinds_in [(''Style Guide'', ERROR)] (capitalization_issues n line)"
  by (simp add: capitalization_issues_def kinds_in_single kind_def)

lemma kinds_long_sentence: "kinds_in [(''Style Guide - Clarity'', WARNING)] (long_sentence_issues n line)"
  unfolding long_sentence_issues_def
  by (rule kinds_in_concat_map) (simp add: kinds_in_single kind_def Let_def)

lemma kinds_passive: "kinds_in [(''Style Guide - Voice'', SUGGESTION)] (passive_issues n line)"
  by (simp add: passive_issues_def kinds_in_single kind_def split: option.splits prod.splits)

lemma kinds_informal: "kinds_in [(''Style Guide - Abbreviations'', ERROR)] (informal_issues n line)"
  unfolding informal_issues_def
  by (rule kinds_in_concat_map) (simp add: kinds_in_single kind_def informal_issue_def split: prod.splits)

lemma kinds_italics: "kinds_in [(''Style Guide - Formatting'', WARNING)] (italics_issues n line)"
  by (simp add: italics_issues_def kinds_in_single kind_def)

definition style_kinds :: "(string \<times> Severity) list" where
  "style_kinds =
     [(''Style Guide'', ERROR), (''Style Guide - Clarity'', WARNING), (''Style Guide - Voice'', SUGGESTION),
      (''Style Guide - Abbreviations'', ERROR), (''Style Guide - Formatting'', WARNING)]"

lemma kinds_style_line: "kinds_in style_kinds (style_line_issues n line)"
proof -
  have "kinds_in style_kinds (capitalization_issues n line)"
    by (rule kinds_in_mono [OF kinds_capitalization]) (simp add: style_kinds_def)
  moreover have "kinds_in style_kinds (long_sentence_issues n line)"
    by (rule kinds_in_mono [OF kinds_long_sentence]) (simp add: style_kinds_def)
  moreover have "kinds_in style_kinds (passive_issues n line)"
    by (rule kinds_in_mono [OF kinds_passive]) (simp add: style_kinds_def)
  moreover have "kinds_in style_kinds (informal_issues n line)"
    by (rule kinds_in_mono [OF kinds_informal]) (simp add: style_kinds_def)
  moreover have "kinds_in style_kinds (italics_issues n line)"
    by (rule kinds_in_mono [OF kinds_italics]) (simp add: style_kinds_def)
  ultimately show ?thesis
    by (simp add: style_line_issues_def)
qed

lemma kinds_style:
  "kinds_in style_kinds (concat (map (\<lambda>(i, line). style_line_issues i line) (enumerate1 lines)))"
  by (rule kinds_in_concat_map) (simp add: kinds_style_line split: prod.splits)

lemma kinds_alignment: "kinds_in [(''Strategic Alignment'', CRITICAL)] [alignment_issue]"
  by (simp add: kinds_in_single kind_def alignment_issue_def)

definition wcag_kinds :: "(string \<times> Severity) list" where
  "wcag_kinds = [(''Accessibility (WCAG 2.1)'', CRITICAL), (''Accessibility (WCAG 2.1)'', WARNING),
                 (''Accessibility (WCAG 2.1)'', ERROR)]"

lemma kinds_image: "kinds_in wcag_kinds (image_issues text)"
  unfolding image_issues_def
  by (rule kinds_in_concat_map) (simp add: kinds_in_single kind_def Let_def wcag_kinds_def)

lemma kinds_first: "kinds_in wcag_kinds (first_issue hs)"
  by (simp add: first_issue_def kinds_in_single kind_def first_heading_issue_def wcag_kinds_def
      split: list.splits)

lemma kinds_skip: "kinds_in wcag_kinds (skip_issues hs)"
  unfolding skip_issues_def
  by (rule kinds_in_concat_map)
     (simp add: skip_at_def kinds_in_single kind_def skip_issue_def wcag_kinds_def Let_def)

lemma kinds_generic_link: "kinds_in wcag_kinds (generic_link_issues text)"
  unfolding generic_link_issues_def
  by (rule kinds_in_concat_map) (simp add: kinds_in_single kind_def Let_def wcag_kinds_def)

lemma kinds_sentence_length: "kinds_in [(''Readability'', WARNING)] (projr (sentence_length_issues text))"
  by (simp add: sentence_length_issues_def truediv_def Let_def kinds_in_single kind_def)

lemma kinds_jargon: "kinds_in [(''Readability - Jargon'', WARNING)] (jargon_issues text)"
  unfolding jargon_issues_def Let_def
  by (rule kinds_in_concat_map) (simp add: kinds_in_single kind_def)

lemma kinds_terminology_line: "kinds_in [(''Terminology'', SUGGESTION)] (terminology_line_issues n line)"
  unfolding terminology_line_issues_def
  by (rule kinds_in_concat_map) (simp add: kinds_in_single kind_def split: prod.splits)

lemma kinds_terminology:
  "kinds_in [(''Terminology'', SUGGESTION)]
     (concat (map (\<lambda>(i, line). terminology_line_issues i line) (enumerate1 lines)))"
  by (rule kinds_in_concat_map) (simp add: kinds_terminology_line split: prod.splits)

definition news_kinds :: "(string \<times> Severity) list" where
  "news_kinds = [(''News Article Standards'', WARNING), (''News Article Standards - Storytelling'', SUGGESTION),
                 (''News Article Standards'', SUGGESTION)]"

lemma kinds_news:
  "kinds_in news_kinds (title_case_issues lines @ opening_issues lines @ article_length_issues text)"
  by (simp add: title_case_issues_def opening_issues_def article_length_issues_def Let_def
      kinds_in_single kind_def news_kinds_def split: option.splits prod.splits)

definition seo_kinds :: "(string \<times> Severity) list" where
  "seo_kinds = [(''SEO'', WARNING), (''SEO'', SUGGESTION)]"

lemma kinds_seo: "kinds_in seo_kinds (projr (seo_issues text))"
proof (cases "re_search meta_content_pattern text [IGNORECASE]")
  case None
  then show ?thesis
    by (simp add: seo_issues_def Let_def kinds_in_single kind_def seo_kinds_def)
next
  case (Some m)
  then obtain w where "group m 1 = Some w"
    using meta_content_group1 re_search_match_of by blast
  with Some show ?thesis
    by (simp add: seo_issues_def Let_def py_len_def kinds_in_single kind_def seo_kinds_def)
qed

lemma kinds_audience: "kinds_in [(''Target Audience'', WARNING)] (projr (audience_issues text))"
  by (simp add: audience_issues_def truediv_def Let_def kinds_in_single kind_def)

lemma kinds_formatting_line: "kinds_in [(''Formatting'', ERROR)] (formatting_line_issues n line)"
  by (simp add: formatting_line_issues_def kinds_in_single kind_def)

lemma kinds_formatting:
  "kinds_in [(''Formatting'', ERROR)]
     (concat (map (\<lambda>(i, line). formatting_line_issues i line) (enumerate1 lines)))"
  by (rule kinds_in_concat_map) (simp add: kinds_formatting_line split: prod.splits)

definition link_kinds :: "(string \<times> Severity) list" where
  "link_kinds = [(''Links'', ERROR), (''Links'', WARNING)]"

lemma kinds_html_link:
  "kinds_in link_kinds (concat (map (html_link_of text) (re_finditer href_pattern text [IGNORECASE])))"
  by (rule kinds_in_concat_map)
     (simp add: html_link_of_def Let_def kinds_in_single kind_def placeholder_issue_def link_kinds_def
       split: option.splits)

lemma kinds_md_link: "kinds_in link_kinds (md_link_issues text)"
  unfolding md_link_issues_def
  by (rule kinds_in_concat_map)
     (simp add: Let_def kinds_in_single kind_def placeholder_issue_def link_kinds_def)


lemma kinds_abbr_step:
  "kinds_in [(''Style Guide - Abbreviations'', WARNING)] (fst st)
   \<Longrightarrow> kinds_in [(''Style Guide - Abbreviations'', WARNING)] (fst (abbr_step n line p st))"
  by (cases p; cases st)
     (simp add: abbr_step_def kinds_in_single kind_def abbreviation_issue_def)

lemma kinds_abbr_fold:
  "kinds_in [(''Style Guide - Abbreviations'', WARNING)] (fst st)
   \<Longrightarrow> kinds_in [(''Style Guide - Abbreviations'', WARNING)] (fst (fold (abbr_step n line) ps st))"
  by (induction ps arbitrary: st) (simp_all add: kinds_abbr_step)

lemma kinds_abbr_lines:
  "kinds_in [(''Style Guide - Abbreviations'', WARNING)] (fst st)
   \<Longrightarrow> kinds_in [(''Style Guide - Abbreviations'', WARNING)]
        (fst (fold (\<lambda>(i, line) st. fold (abbr_step i line) ps st) els st))"
proof (induction els arbitrary: st)
  case Nil
  then show ?case by simp
next
  case (Cons e els)
  show ?case
    by (cases e) (simp add: Cons.IH kinds_abbr_fold Cons.prems)
qed

lemma kinds_abbr: "kinds_in [(''Style Guide - Abbreviations'', WARNING)] (fst (abbr_scan lines))"
  unfolding abbr_scan_def by (rule kinds_abbr_lines) simp

section \<open>Strategic alignment\<close>

lemma filter_other_category:
  assumes "kinds_in K xs" and "c \<notin> fst ` set K"
  shows "filter (\<lambda>i. category i = c) xs = []"
  using assms by (force simp: filter_empty_conv kinds_in_def list_all_iff kind_def)

definition found_in :: "string \<Rightarrow> string \<Rightarrow> bool" where
  "found_in text priority \<longleftrightarrow>
     (case map_of STRATEGIC_KEYWORDS priority of
        None \<Rightarrow> False
      | Some kws \<Rightarrow> keyword_found (lower text) kws)"

lemma scan_priorities_flags:
  "scan_priorities (lower text) StrategicAlignment_new =
     \<lparr>earth_system_monitoring = found_in text ''earth_system_monitoring'',
      early_warnings = found_in text ''early_warnings'',
      climate_action = found_in text ''climate_action'',
      capacity_development = found_in text ''capacity_development'',
      hydrometeorological_services = found_in text ''hydrometeorological_services''\<rparr>"
  by (simp add: scan_priorities_def STRATEGIC_KEYWORDS_def found_in_def setattr_True_def
      StrategicAlignment_new_def)


lemma lower_flood: "lower ''flood'' = ''flood''"
  by code_simp

definition flood_only :: "string \<Rightarrow> bool" where
  "flood_only text \<longleftrightarrow>
     str_in ''flood'' (lower text)
     \<and> (\<forall>kw\<in>set (concat (map snd STRATEGIC_KEYWORDS)). kw \<noteq> ''flood'' \<longrightarrow> \<not> str_in (lower kw) (lower text))"

definition no_keyword :: "string \<Rightarrow> bool" where
  "no_keyword text \<longleftrightarrow>
     (\<forall>kw\<in>set (concat (map snd STRATEGIC_KEYWORDS)). \<not> str_in (lower kw) (lower text))"

lemma flood_only_flags:
  assumes "flood_only text"
  shows "\<not> found_in text ''earth_system_monitoring''" "\<not> found_in text ''early_warnings''"
    "\<not> found_in text ''climate_action''" "\<not> found_in text ''capacity_development''"
    "found_in text ''hydrometeorological_services''"
proof -
  note H = assms [unfolded flood_only_def STRATEGIC_KEYWORDS_def, simplified]
  show "\<not> found_in text ''earth_system_monitoring''"
    using H by (simp add: found_in_def STRATEGIC_KEYWORDS_def keyword_found_def)
  show "\<not> found_in text ''early_warnings''"
    using H by (simp add: found_in_def STRATEGIC_KEYWORDS_def keyword_found_def)
  show "\<not> found_in text ''climate_action''"
    using H by (simp add: found_in_def STRATEGIC_KEYWORDS_def keyword_found_def)
  show "\<not> found_in text ''capacity_development''"
    using H by (simp add: found_in_def STRATEGIC_KEYWORDS_def keyword_found_def)
  show "found_in text ''hydrometeorological_services''"
    using H by (simp add: found_in_def STRATEGIC_KEYWORDS_def keyword_found_def lower_flood)
qed

lemma no_keyword_flags:
  assumes "no_keyword text"
  shows "\<not> found_in text ''earth_system_monitoring''" "\<not> found_in text ''early_warnings''"
    "\<not> found_in text ''climate_action''" "\<not> found_in text ''capacity_development''"
    "\<not> found_in text ''hydrometeorological_services''"
proof -
  note H = assms [unfolded no_keyword_def STRATEGIC_KEYWORDS_def, simplified]
  show "\<not> found_in text ''earth_system_monitoring''"
    using H by (simp add: found_in_def STRATEGIC_KEYWORDS_def keyword_found_def)
  show "\<not> found_in text ''early_warnings''"
    using H by (simp add: found_in_def STRATEGIC_KEYWORDS_def keyword_found_def)
  show "\<not> found_in text ''climate_action''"
    using H by (simp add: found_in_def STRATEGIC_KEYWORDS_def keyword_found_def)
  show "\<not> found_in text ''capacity_development''"
    using H by (simp add: found_in_def STRATEGIC_KEYWORDS_def keyword_found_def)
  show "\<not> found_in text ''hydrometeorological_services''"
    using H by (simp add: found_in_def STRATEGIC_KEYWORDS_def keyword_found_def)
qed


lemma sort_issues_filter: "filter P (sort_issues xs) = sort_issues (filter P xs)"
  by (simp add: sort_issues_def filter_sort)

lemma sort_issues_single [simp]: "sort_issues [x] = [x]" "sort_issues [] = []"
  by (simp_all add: sort_issues_def)

lemma alignment_issues_of_all:
  "filter (\<lambda>i. category i = ''Strategic Alignment'') (all_issues ct text) =
     (if get_coverage (scan_priorities (lower text) StrategicAlignment_new) < 20
      then [alignment_issue] else [])"
proof -
  let ?P = "\<lambda>i. category i = ''Strategic Alignment''"
  let ?lines = "split_on newline text"
  have 1: "filter ?P (concat (map (\<lambda>(i, line). style_line_issues i line) (enumerate1 ?lines))) = []"
    by (rule filter_other_category [OF kinds_style]) (simp add: style_kinds_def)
  have 2: "filter ?P (image_issues text) = []"
    by (rule filter_other_category [OF kinds_image]) (simp add: wcag_kinds_def)
  have 3: "filter ?P (first_issue (headings_of ?lines)) = []"
    by (rule filter_other_category [OF kinds_first]) (simp add: wcag_kinds_def)
  have 4: "filter ?P (skip_issues (headings_of ?lines)) = []"
    by (rule filter_other_category [OF kinds_skip]) (simp add: wcag_kinds_def)
  have 5: "filter ?P (generic_link_issues text) = []"
    by (rule filter_other_category [OF kinds_generic_link]) (simp add: wcag_kinds_def)
  have 6: "filter ?P (projr (sentence_length_issues text)) = []"
    by (rule filter_other_category [OF kinds_sentence_length]) simp
  have 7: "filter ?P (jargon_issues text) = []"
    by (rule filter_other_category [OF kinds_jargon]) simp
  have 8: "filter ?P (concat (map (\<lambda>(i, line). terminology_line_issues i line) (enumerate1 ?lines))) = []"
    by (rule filter_other_category [OF kinds_terminology]) simp
  have 9: "filter ?P (fst (abbr_scan ?lines)) = []"
    by (rule filter_other_category [OF kinds_abbr]) simp
  have 10: "filter ?P (title_case_issues ?lines @ opening_issues ?lines @ article_length_issues text) = []"
    by (rule filter_other_category [OF kinds_news]) (simp add: news_kinds_def)
  have 11: "filter ?P (projr (seo_issues text)) = []"
    by (rule filter_other_category [OF kinds_seo]) (simp add: seo_kinds_def)
  have 12: "filter ?P (projr (audience_issues text)) = []"
    by (rule filter_other_category [OF kinds_audience]) simp
  have 13: "filter ?P (concat (map (\<lambda>(i, line). formatting_line_issues i line) (enumerate1 ?lines))) = []"
    by (rule filter_other_category [OF kinds_formatting]) simp
  have 14: "filter ?P (concat (map (html_link_of text) (re_finditer href_pattern text [IGNORECASE]))) = []"
    by (rule filter_other_category [OF kinds_html_link]) (simp add: link_kinds_def)
  have 15: "filter ?P (md_link_issues text) = []"
    by (rule filter_other_category [OF kinds_md_link]) (simp add: link_kinds_def)
  have 0: "filter ?P [alignment_issue] = [alignment_issue]"
    by (simp add: alignment_issue_def)
  from 10 have n10: "filter ?P (title_case_issues ?lines) = []" "filter ?P (opening_issues ?lines) = []"
    "filter ?P (article_length_issues text) = []"
    by simp_all
  show ?thesis
    unfolding all_issues_def Let_def filter_append 1 2 3 4 5 6 7 8 9 11 12 13 14 15
    using 0 n10 by simp
qed


lemma coverage_of_flags:
  "get_coverage \<lparr>earth_system_monitoring = False, early_warnings = False, climate_action = False,
      capacity_development = False, hydrometeorological_services = True\<rparr> = 20"
  "get_coverage StrategicAlignment_new = 0"
  by (simp_all add: get_coverage_eq covered_def StrategicAlignment_new_def)

text \<open>
  C3. A document that contains the keyword flood and no other keyword of the five lists
  sets \<open>hydrometeorological_services\<close> and no other flag, has coverage 20.0, and gets no
  Strategic Alignment issue, since 20.0 is not below 20. A document that contains no keyword
  has coverage 0.0 and gets exactly one Strategic Alignment issue, which is CRITICAL and
  document-level (line 0). In every review that issue appears once when the coverage is
  below 20 and not at all otherwise; no other check emits an issue of that category.
\<close>

theorem strategic_coverage:
  assumes "review s text = Inr ((found, a), s')"
  shows "(flood_only text \<longrightarrow>
            a = \<lparr>earth_system_monitoring = False, early_warnings = False, climate_action = False,
                 capacity_development = False, hydrometeorological_services = True\<rparr>
            \<and> get_coverage a = 20
            \<and> filter (\<lambda>i. category i = ''Strategic Alignment'') found = [])
       \<and> (no_keyword text \<longrightarrow>
            a = StrategicAlignment_new \<and> get_coverage a = 0
            \<and> filter (\<lambda>i. category i = ''Strategic Alignment'') found = [alignment_issue]
            \<and> severity alignment_issue = CRITICAL \<and> line_number alignment_issue = 0)
       \<and> filter (\<lambda>i. category i = ''Strategic Alignment'') found
           = (if get_coverage a < 20 then [alignment_issue] else [])"
proof -
  from assms have a: "a = scan_priorities (lower text) StrategicAlignment_new"
    and f: "found = sort_issues (all_issues (content_type s) text)"
    unfolding review_eq by simp_all
  have general: "filter (\<lambda>i. category i = ''Strategic Alignment'') found
           = (if get_coverage a < 20 then [alignment_issue] else [])"
    unfolding f sort_issues_filter alignment_issues_of_all a by simp
  have flood: "a = \<lparr>earth_system_monitoring = False, early_warnings = False, climate_action = False,
                 capacity_development = False, hydrometeorological_services = True\<rparr>"
    if "flood_only text"
    unfolding a scan_priorities_flags using flood_only_flags [OF that] by simp
  have none: "a = StrategicAlignment_new" if "no_keyword text"
    unfolding a scan_priorities_flags using no_keyword_flags [OF that]
    by (simp add: StrategicAlignment_new_def)
  have 1: "flood_only text \<longrightarrow>
            a = \<lparr>earth_system_monitoring = False, early_warnings = False, climate_action = False,
                 capacity_development = False, hydrometeorological_services = True\<rparr>
            \<and> get_coverage a = 20
            \<and> filter (\<lambda>i. category i = ''Strategic Alignment'') found = []"
  proof
    assume h: "flood_only text"
    from flood [OF h] have c: "get_coverage a = 20" by (simp only: coverage_of_flags)
    with general have "filter (\<lambda>i. category i = ''Strategic Alignment'') found = []" by simp
    with flood [OF h] c show "a = \<lparr>earth_system_monitoring = False, early_warnings = False, climate_action = False,
                 capacity_development = False, hydrometeorological_services = True\<rparr>
            \<and> get_coverage a = 20
            \<and> filter (\<lambda>i. category i = ''Strategic Alignment'') found = []"
      by simp
  qed
  have 2: "no_keyword text \<longrightarrow>
            a = StrategicAlignment_new \<and> get_coverage a = 0
            \<and> filter (\<lambda>i. category i = ''Strategic Alignment'') found = [alignment_issue]
            \<and> severity alignment_issue = CRITICAL \<and> line_number alignment_issue = 0"
  proof
    assume h: "no_keyword text"
    from none [OF h] have c: "get_coverage a = 0" by (simp only: coverage_of_flags)
    with general have "filter (\<lambda>i. category i = ''Strategic Alignment'') found = [alignment_issue]" by simp
    with none [OF h] c show "a = StrategicAlignment_new \<and> get_coverage a = 0
            \<and> filter (\<lambda>i. category i = ''Strategic Alignment'') found = [alignment_issue]
            \<and> severity alignment_issue = CRITICAL \<and> line_number alignment_issue = 0"
      by (simp add: alignment_issue_def)
  qed
  show ?thesis by (intro conjI; fact)
qed

lemma flood_only_example: "flood_only ''flood''"
  by code_simp

lemma no_keyword_example: "no_keyword []"
  by code_simp

theorem strategic_coverage_witness:
  "flood_only ''flood'' \<and> no_keyword []
   \<and> (\<exists>found a s'. review (BillieJean_init UNKNOWN) ''flood'' = Inr ((found, a), s')
         \<and> hydrometeorological_services a \<and> \<not> earth_system_monitoring a \<and> \<not> early_warnings a
         \<and> \<not> climate_action a \<and> \<not> capacity_development a
         \<and> get_coverage a = 20
         \<and> filter (\<lambda>i. category i = ''Strategic Alignment'') found = [])
   \<and> (\<exists>found a s'. review (BillieJean_init UNKNOWN) [] = Inr ((found, a), s')
         \<and> a = StrategicAlignment_new \<and> get_coverage a = 0
         \<and> filter (\<lambda>i. category i = ''Strategic Alignment'') found = [alignment_issue])"
proof -
  obtain f1 a1 s1 where r1: "review (BillieJean_init UNKNOWN) ''flood'' = Inr ((f1, a1), s1)"
    unfolding review_eq by simp
  obtain f2 a2 s2 where r2: "review (BillieJean_init UNKNOWN) [] = Inr ((f2, a2), s2)"
    unfolding review_eq by simp
  note t1 = strategic_coverage [OF r1, THEN conjunct1, rule_format, OF flood_only_example]
  note t2 = strategic_coverage [OF r2, THEN conjunct2, THEN conjunct1, rule_format, OF no_keyword_example]
  have e1: "\<exists>found a s'. review (BillieJean_init UNKNOWN) ''flood'' = Inr ((found, a), s')
         \<and> hydrometeorological_services a \<and> \<not> earth_system_monitoring a \<and> \<not> early_warnings a
         \<and> \<not> climate_action a \<and> \<not> capacity_development a
         \<and> get_coverage a = 20
         \<and> filter (\<lambda>i. category i = ''Strategic Alignment'') found = []"
    apply (rule exI [of _ f1], rule exI [of _ a1], rule exI [of _ s1])
    using r1 t1 by (simp add: coverage_of_flags)
  have e2: "\<exists>found a s'. review (BillieJean_init UNKNOWN) [] = Inr ((found, a), s')
         \<and> a = StrategicAlignment_new \<and> get_coverage a = 0
         \<and> filter (\<lambda>i. category i = ''Strategic Alignment'') found = [alignment_issue]"
    apply (rule exI [of _ f2], rule exI [of _ a2], rule exI [of _ s2])
    using r2 t2 by (simp add: coverage_of_flags)
  from flood_only_example no_keyword_example e1 e2 show ?thesis
    by (intro conjI)
qed

section \<open>Abbreviations are warned about once\<close>

definition track :: "string \<Rightarrow> string \<Rightarrow> int \<Rightarrow> string \<Rightarrow> ReviewIssue list \<times> bool \<Rightarrow> ReviewIssue list \<times> bool" where
  "track a full i line = (\<lambda>(xs, b).
     if str_in a line
     then if is_defined a full line then (xs, True)
          else if \<not> b \<and> a \<noteq> ''WMO'' then (xs @ [abbreviation_issue i a full], True)
          else (xs, b)
     else (xs, b))"

definition view :: "string \<Rightarrow> ReviewIssue list \<times> string set \<Rightarrow> ReviewIssue list \<times> bool" where
  "view a st = (filter (\<lambda>x. flagged_text x = a) (fst st), a \<in> snd st)"

lemma view_step:
  "view a (abbr_step i line (b, fb) st) = (if b = a then track a fb i line (view a st) else view a st)"
  by (cases st) (auto simp: abbr_step_def view_def track_def abbreviation_issue_def)

lemma view_fold:
  assumes "distinct (map fst ps)"
  shows "view a (fold (abbr_step i line) ps st) =
     (case map_of ps a of None \<Rightarrow> view a st | Some full \<Rightarrow> track a full i line (view a st))"
  using assms
proof (induction ps arbitrary: st)
  case Nil
  then show ?case by simp
next
  case (Cons p ps)
  obtain b fb where p: "p = (b, fb)" by (cases p)
  from Cons.prems p have d: "distinct (map fst ps)" and nb: "b \<notin> fst ` set ps" by auto
  from nb have none: "map_of ps b = None" by (simp add: map_of_eq_None_iff)
  show ?case
  proof (cases "b = a")
    case True
    with none show ?thesis
      unfolding p by (simp add: Cons.IH [OF d] view_step)
  next
    case False
    then show ?thesis
      unfolding p by (simp add: Cons.IH [OF d] view_step split: option.splits)
  qed
qed

lemma view_lines:
  assumes "distinct (map fst ps)"
  shows "view a (fold (\<lambda>(i, line) st. fold (abbr_step i line) ps st) els st) =
     (case map_of ps a of
        None \<Rightarrow> view a st
      | Some full \<Rightarrow> fold (\<lambda>(i, line). track a full i line) els (view a st))"
proof (induction els arbitrary: st)
  case Nil
  then show ?case by (simp split: option.splits)
next
  case (Cons e els)
  obtain i line where e: "e = (i, line)" by (cases e)
  show ?case
    unfolding e by (simp add: Cons.IH view_fold [OF assms] split: option.splits)
qed

lemma distinct_abbreviations: "distinct (map fst WMO_ABBREVIATIONS)"
  by (simp add: WMO_ABBREVIATIONS_def)

lemma track_once:
  assumes "fst st = [] \<or> (length (fst st) = 1 \<and> snd st)"
  shows "fst (track a full i line st) = [] \<or> (length (fst (track a full i line st)) = 1 \<and> snd (track a full i line st))"
  using assms by (cases st) (auto simp: track_def)

lemma track_fold_once:
  assumes "fst st = [] \<or> (length (fst st) = 1 \<and> snd st)"
  shows "length (fst (fold (\<lambda>(i, line). track a full i line) els st)) \<le> 1"
  using assms
proof (induction els arbitrary: st)
  case Nil
  then show ?case by auto
next
  case (Cons e els)
  obtain i line where e: "e = (i, line)" by (cases e)
  show ?case
    unfolding e using Cons.IH [OF track_once [OF Cons.prems]] by simp
qed

lemma track_fold_seen:
  assumes "\<forall>(i, line)\<in>set els. \<not> is_defined a full line"
  shows "fold (\<lambda>(i, line). track a full i line) els (xs, True) = (xs, True)"
  using assms by (induction els) (auto simp: track_def)

lemma track_fold_first:
  assumes "\<forall>(i, line)\<in>set els. \<not> is_defined a full line" and "a \<noteq> ''WMO''"
  shows "fold (\<lambda>(i, line). track a full i line) els ([], False) =
     (case find (\<lambda>(i, line). str_in a line) els of
        None \<Rightarrow> ([], False)
      | Some (i0, l0) \<Rightarrow> ([abbreviation_issue i0 a full], True))"
  using assms
proof (induction els)
  case Nil
  then show ?case by simp
next
  case (Cons e els)
  obtain i line where e: "e = (i, line)" by (cases e)
  from Cons.prems have nd: "\<not> is_defined a full line" and rest: "\<forall>(i, line)\<in>set els. \<not> is_defined a full line"
    unfolding e by auto
  show ?case
  proof (cases "str_in a line")
    case True
    with nd Cons.prems(2) have "track a full i line ([], False) = ([abbreviation_issue i a full], True)"
      by (simp add: track_def)
    with True show ?thesis
      unfolding e by (simp add: track_fold_seen [OF rest])
  next
    case False
    then have "track a full i line ([], False) = ([], False)" by (simp add: track_def)
    with False show ?thesis
      unfolding e using Cons.IH [OF rest Cons.prems(2)] by simp
  qed
qed

lemma view_abbr_scan:
  "view a (abbr_scan lines) =
     (case map_of WMO_ABBREVIATIONS a of
        None \<Rightarrow> ([], False)
      | Some full \<Rightarrow> fold (\<lambda>(i, line). track a full i line) (enumerate1 lines) ([], False))"
  unfolding abbr_scan_def view_lines [OF distinct_abbreviations]
  by (simp add: view_def split: option.splits)

lemma abbr_scan_at_most_once:
  "length (filter (\<lambda>x. flagged_text x = a) (fst (abbr_scan lines))) \<le> 1"
proof (cases "map_of WMO_ABBREVIATIONS a")
  case None
  then have "view a (abbr_scan lines) = ([], False)" by (simp add: view_abbr_scan)
  then show ?thesis by (simp add: view_def)
next
  case (Some full)
  then have "fst (view a (abbr_scan lines)) = fst (fold (\<lambda>(i, line). track a full i line) (enumerate1 lines) ([], False))"
    by (simp add: view_abbr_scan)
  moreover have "length (fst (fold (\<lambda>(i, line). track a full i line) (enumerate1 lines) ([], False))) \<le> 1"
    by (rule track_fold_once) simp
  ultimately show ?thesis by (simp add: view_def)
qed

lemma in_enumerate1: "(i, line) \<in> set (enumerate1 lines) \<Longrightarrow> line \<in> set lines"
  unfolding enumerate1_def by (rule set_zip_rightD)

lemma abbr_scan_first_use:
  assumes "(a, full) \<in> set WMO_ABBREVIATIONS" and "a \<noteq> ''WMO''"
    and "\<forall>line\<in>set lines. \<not> is_defined a full line"
    and "find (\<lambda>(i, line). str_in a line) (enumerate1 lines) = Some (i0, l0)"
  shows "filter (\<lambda>x. flagged_text x = a) (fst (abbr_scan lines)) = [abbreviation_issue i0 a full]"
    and "a \<in> snd (abbr_scan lines)"
proof -
  from assms(1) have m: "map_of WMO_ABBREVIATIONS a = Some full"
    by (simp add: distinct_abbreviations)
  from assms(3) have nd: "\<forall>(i, line)\<in>set (enumerate1 lines). \<not> is_defined a full line"
    using in_enumerate1 by fastforce
  have "view a (abbr_scan lines) = ([abbreviation_issue i0 a full], True)"
    unfolding view_abbr_scan m using track_fold_first [OF nd assms(2)] assms(4) by simp
  then show "filter (\<lambda>x. flagged_text x = a) (fst (abbr_scan lines)) = [abbreviation_issue i0 a full]"
    and "a \<in> snd (abbr_scan lines)"
    by (simp_all add: view_def)
qed


definition abbreviation_warning :: "string \<Rightarrow> ReviewIssue \<Rightarrow> bool" where
  "abbreviation_warning a i \<longleftrightarrow>
     category i = ''Style Guide - Abbreviations'' \<and> severity i = WARNING \<and> flagged_text i = a"

lemma abbreviation_warning_kind:
  "abbreviation_warning a = (\<lambda>i. kind i = (''Style Guide - Abbreviations'', WARNING) \<and> flagged_text i = a)"
  by (auto simp: abbreviation_warning_def kind_def fun_eq_iff)

lemma filter_same_kind:
  assumes "kinds_in [k] xs"
  shows "filter (\<lambda>i. kind i = k \<and> Q i) xs = filter Q xs"
  using assms by (auto simp: kinds_in_def list_all_iff intro: filter_cong)

lemma warnings_of_all:
  "filter (abbreviation_warning a) (all_issues ct text) =
     filter (\<lambda>x. flagged_text x = a) (fst (abbr_scan (split_on newline text)))"
proof -
  let ?k = "(''Style Guide - Abbreviations'', WARNING)"
  let ?P = "\<lambda>i. kind i = ?k \<and> flagged_text i = a"
  let ?lines = "split_on newline text"
  have 0: "filter ?P [alignment_issue] = []"
    by (rule filter_other_kind [OF kinds_alignment]) simp
  have 1: "filter ?P (concat (map (\<lambda>(i, line). style_line_issues i line) (enumerate1 ?lines))) = []"
    by (rule filter_other_kind [OF kinds_style]) (simp add: style_kinds_def)
  have 2: "filter ?P (image_issues text) = []"
    by (rule filter_other_kind [OF kinds_image]) (simp add: wcag_kinds_def)
  have 3: "filter ?P (first_issue (headings_of ?lines)) = []"
    by (rule filter_other_kind [OF kinds_first]) (simp add: wcag_kinds_def)
  have 4: "filter ?P (skip_issues (headings_of ?lines)) = []"
    by (rule filter_other_kind [OF kinds_skip]) (simp add: wcag_kinds_def)
  have 5: "filter ?P (generic_link_issues text) = []"
    by (rule filter_other_kind [OF kinds_generic_link]) (simp add: wcag_kinds_def)
  have 6: "filter ?P (projr (sentence_length_issues text)) = []"
    by (rule filter_other_kind [OF kinds_sentence_length]) simp
  have 7: "filter ?P (jargon_issues text) = []"
    by (rule filter_other_kind [OF kinds_jargon]) simp
  have 8: "filter ?P (concat (map (\<lambda>(i, line). terminology_line_issues i line) (enumerate1 ?lines))) = []"
    by (rule filter_other_kind [OF kinds_terminology]) simp
  have 9: "filter ?P (fst (abbr_scan ?lines)) = filter (\<lambda>x. flagged_text x = a) (fst (abbr_scan ?lines))"
    by (rule filter_same_kind [OF kinds_abbr])
  have 10: "filter ?P (title_case_issues ?lines @ opening_issues ?lines @ article_length_issues text) = []"
    by (rule filter_other_kind [OF kinds_news]) (simp add: news_kinds_def)
  have 11: "filter ?P (projr (seo_issues text)) = []"
    by (rule filter_other_kind [OF kinds_seo]) (simp add: seo_kinds_def)
  have 12: "filter ?P (projr (audience_issues text)) = []"
    by (rule filter_other_kind [OF kinds_audience]) simp
  have 13: "filter ?P (concat (map (\<lambda>(i, line). formatting_line_issues i line) (enumerate1 ?lines))) = []"
    by (rule filter_other_kind [OF kinds_formatting]) simp
  have 14: "filter ?P (concat (map (html_link_of text) (re_finditer href_pattern text [IGNORECASE]))) = []"
    by (rule filter_other_kind [OF kinds_html_link]) (simp add: link_kinds_def)
  have 15: "filter ?P (md_link_issues text) = []"
    by (rule filter_other_kind [OF kinds_md_link]) (simp add: link_kinds_def)
  from 10 have n10: "filter ?P (title_case_issues ?lines) = []" "filter ?P (opening_issues ?lines) = []"
    "filter ?P (article_length_issues text) = []"
    by simp_all
  show ?thesis
    unfolding abbreviation_warning_kind all_issues_def Let_def filter_append 1 2 3 4 5 6 7 8 9 11 12 13 14 15
    using 0 n10 by simp
qed

lemma length_sort_issues [simp]: "length (sort_issues xs) = length xs"
  by (simp add: sort_issues_def)

text \<open>
  C4. In every review an abbreviation is warned about at most once. For an abbreviation of
  the table other than WMO that no line defines by one of the two parenthetical patterns
  and that occurs in the document (on three lines, or on any number of them), the review
  returns exactly one WARNING for it, attached to the first line in which it occurs; the
  warning adds the abbreviation to the set of defined abbreviations.
\<close>

theorem abbreviation_warned_once:
  assumes "review s text = Inr ((found, al), s')"
  shows "length (filter (abbreviation_warning a) found) \<le> 1
       \<and> ((a, full) \<in> set WMO_ABBREVIATIONS \<and> a \<noteq> ''WMO''
           \<and> (\<forall>line\<in>set (split_on newline text). \<not> is_defined a full line)
           \<and> find (\<lambda>(i, line). str_in a line) (enumerate1 (split_on newline text)) = Some (i0, l0)
           \<longrightarrow> filter (abbreviation_warning a) found = [abbreviation_issue i0 a full]
               \<and> a \<in> defined_abbreviations s')"
proof -
  let ?lines = "split_on newline text"
  from assms have f: "found = sort_issues (all_issues (content_type s) text)"
    and s': "s' = final_state (content_type s) text"
    unfolding review_eq by simp_all
  have w: "filter (abbreviation_warning a) found
      = sort_issues (filter (\<lambda>x. flagged_text x = a) (fst (abbr_scan ?lines)))"
    unfolding f sort_issues_filter warnings_of_all ..
  have 1: "length (filter (abbreviation_warning a) found) \<le> 1"
    unfolding w using abbr_scan_at_most_once [of a ?lines] by simp
  have 2: "(a, full) \<in> set WMO_ABBREVIATIONS \<and> a \<noteq> ''WMO''
           \<and> (\<forall>line\<in>set ?lines. \<not> is_defined a full line)
           \<and> find (\<lambda>(i, line). str_in a line) (enumerate1 ?lines) = Some (i0, l0)
           \<longrightarrow> filter (abbreviation_warning a) found = [abbreviation_issue i0 a full]
               \<and> a \<in> defined_abbreviations s'"
  proof
    assume h: "(a, full) \<in> set WMO_ABBREVIATIONS \<and> a \<noteq> ''WMO''
           \<and> (\<forall>line\<in>set ?lines. \<not> is_defined a full line)
           \<and> find (\<lambda>(i, line). str_in a line) (enumerate1 ?lines) = Some (i0, l0)"
    then have h1: "(a, full) \<in> set WMO_ABBREVIATIONS" and h2: "a \<noteq> ''WMO''"
      and h3: "\<forall>line\<in>set ?lines. \<not> is_defined a full line"
      and h4: "find (\<lambda>(i, line). str_in a line) (enumerate1 ?lines) = Some (i0, l0)"
      by simp_all
    note u = abbr_scan_first_use [OF h1 h2 h3 h4]
    show "filter (abbreviation_warning a) found = [abbreviation_issue i0 a full]
               \<and> a \<in> defined_abbreviations s'"
      unfolding w u(1) s' using u(2) by (simp add: final_state_def)
  qed
  show ?thesis by (intro conjI; fact)
qed

definition three_uses :: string where
  "three_uses = ''GCOS data'' @ [newline] @ ''more GCOS'' @ [newline] @ ''GCOS''"

lemma three_uses_facts:
  "map (str_in ''GCOS'') (split_on newline three_uses) = [True, True, True]"
  "list_all (\<lambda>line. \<not> is_defined ''GCOS'' ''Global Climate Observing System'' line) (split_on newline three_uses)"
  "find (\<lambda>(i, line). str_in ''GCOS'' line) (enumerate1 (split_on newline three_uses)) = Some (1, ''GCOS data'')"
  by code_simp+

theorem abbreviation_warned_once_witness:
  "map (str_in ''GCOS'') (split_on newline three_uses) = [True, True, True]
   \<and> (\<exists>found al s'. review (BillieJean_init UNKNOWN) three_uses = Inr ((found, al), s')
         \<and> filter (abbreviation_warning ''GCOS'') found
            = [abbreviation_issue 1 ''GCOS'' ''Global Climate Observing System'']
         \<and> ''GCOS'' \<in> defined_abbreviations s'
         \<and> length (filter (abbreviation_warning ''GCOS'') found) \<le> 1)"
proof -
  obtain found al s' where r: "review (BillieJean_init UNKNOWN) three_uses = Inr ((found, al), s')"
    unfolding review_eq by simp
  have h: "(''GCOS'', ''Global Climate Observing System'') \<in> set WMO_ABBREVIATIONS \<and> ''GCOS'' \<noteq> ''WMO''
           \<and> (\<forall>line\<in>set (split_on newline three_uses). \<not> is_defined ''GCOS'' ''Global Climate Observing System'' line)
           \<and> find (\<lambda>(i, line). str_in ''GCOS'' line) (enumerate1 (split_on newline three_uses)) = Some (1, ''GCOS data'')"
    using three_uses_facts(2,3) by (simp add: WMO_ABBREVIATIONS_def list_all_iff)
  note t = abbreviation_warned_once [OF r, of "''GCOS''" "''Global Climate Observing System''" 1 "''GCOS data''"]
  note t1 = t [THEN conjunct1]
  note t2 = t [THEN conjunct2, rule_format, OF h]
  have "\<exists>found al s'. review (BillieJean_init UNKNOWN) three_uses = Inr ((found, al), s')
         \<and> filter (abbreviation_warning ''GCOS'') found
            = [abbreviation_issue 1 ''GCOS'' ''Global Climate Observing System'']
         \<and> ''GCOS'' \<in> defined_abbreviations s'
         \<and> length (filter (abbreviation_warning ''GCOS'') found) \<le> 1"
    apply (rule exI [of _ found], rule exI [of _ al], rule exI [of _ s'])
    using r t1 t2 by (intro conjI) (elim conjE, assumption)+
  with three_uses_facts(1) show ?thesis by (intro conjI)
qed

section \<open>Heading hierarchy\<close>

definition hierarchy_skip :: "ReviewIssue \<Rightarrow> bool" where
  "hierarchy_skip i \<longleftrightarrow>
     category i = ''Accessibility (WCAG 2.1)'' \<and> severity i = ERROR
     \<and> prefix ''Heading hierarchy skip'' (message i)"

definition first_heading_error :: "ReviewIssue \<Rightarrow> bool" where
  "first_heading_error i \<longleftrightarrow>
     category i = ''Accessibility (WCAG 2.1)'' \<and> severity i = ERROR
     \<and> message i = ''Document should start with H1 heading''"

lemma hierarchy_skip_kind:
  "hierarchy_skip = (\<lambda>i. kind i = (''Accessibility (WCAG 2.1)'', ERROR) \<and> prefix ''Heading hierarchy skip'' (message i))"
  by (auto simp: hierarchy_skip_def kind_def fun_eq_iff)

lemma first_heading_error_kind:
  "first_heading_error = (\<lambda>i. kind i = (''Accessibility (WCAG 2.1)'', ERROR) \<and> message i = ''Document should start with H1 heading'')"
  by (auto simp: first_heading_error_def kind_def fun_eq_iff)

lemma kinds_image_exact:
  "kinds_in [(''Accessibility (WCAG 2.1)'', CRITICAL), (''Accessibility (WCAG 2.1)'', WARNING)] (image_issues text)"
  unfolding image_issues_def
  by (rule kinds_in_concat_map) (simp add: kinds_in_single kind_def Let_def)

lemma filter_concat_map_empty:
  assumes "\<And>x. x \<in> set xs \<Longrightarrow> filter P (f x) = []"
  shows "filter P (concat (map f xs)) = []"
  using assms by (induction xs) simp_all

lemma filter_concat_map_all:
  assumes "\<And>x. x \<in> set xs \<Longrightarrow> filter P (f x) = f x"
  shows "filter P (concat (map f xs)) = concat (map f xs)"
  using assms by (induction xs) simp_all

lemma skip_of_first: "filter hierarchy_skip (first_issue hs) = []"
  by (simp add: first_issue_def first_heading_issue_def hierarchy_skip_def split: list.splits)

lemma skip_of_generic: "filter hierarchy_skip (generic_link_issues text) = []"
  unfolding generic_link_issues_def
  by (rule filter_concat_map_empty) (simp add: hierarchy_skip_def Let_def)

lemma skip_of_skip: "filter hierarchy_skip (skip_issues hs) = skip_issues hs"
  unfolding skip_issues_def
  by (rule filter_concat_map_all) (simp add: skip_at_def skip_issue_def hierarchy_skip_def Let_def)

lemma first_of_first: "filter first_heading_error (first_issue hs) = first_issue hs"
  by (simp add: first_issue_def first_heading_issue_def first_heading_error_def split: list.splits)

lemma first_of_generic: "filter first_heading_error (generic_link_issues text) = []"
  unfolding generic_link_issues_def
  by (rule filter_concat_map_empty) (simp add: first_heading_error_def Let_def)

lemma first_of_skip: "filter first_heading_error (skip_issues hs) = []"
  unfolding skip_issues_def
  by (rule filter_concat_map_empty) (simp add: skip_at_def skip_issue_def first_heading_error_def Let_def)


lemma skips_of_all:
  "filter hierarchy_skip (all_issues ct text) = skip_issues (headings_of (split_on newline text))"
proof -
  let ?lines = "split_on newline text"
  have p0: "filter hierarchy_skip [alignment_issue] = []"
    unfolding hierarchy_skip_kind by (rule filter_other_kind [OF kinds_alignment]) simp
  have p1: "filter hierarchy_skip (concat (map (\<lambda>(i, line). style_line_issues i line) (enumerate1 ?lines))) = []"
    unfolding hierarchy_skip_kind by (rule filter_other_kind [OF kinds_style]) (simp add: style_kinds_def)
  have p2: "filter hierarchy_skip (image_issues text) = []"
    unfolding hierarchy_skip_kind by (rule filter_other_kind [OF kinds_image_exact]) simp
  have p6: "filter hierarchy_skip (projr (sentence_length_issues text)) = []"
    unfolding hierarchy_skip_kind by (rule filter_other_kind [OF kinds_sentence_length]) simp
  have p7: "filter hierarchy_skip (jargon_issues text) = []"
    unfolding hierarchy_skip_kind by (rule filter_other_kind [OF kinds_jargon]) simp
  have p8: "filter hierarchy_skip (concat (map (\<lambda>(i, line). terminology_line_issues i line) (enumerate1 ?lines))) = []"
    unfolding hierarchy_skip_kind by (rule filter_other_kind [OF kinds_terminology]) simp
  have p9: "filter hierarchy_skip (fst (abbr_scan ?lines)) = []"
    unfolding hierarchy_skip_kind by (rule filter_other_kind [OF kinds_abbr]) simp
  have p10: "filter hierarchy_skip (title_case_issues ?lines @ opening_issues ?lines @ article_length_issues text) = []"
    unfolding hierarchy_skip_kind by (rule filter_other_kind [OF kinds_news]) (simp add: news_kinds_def)
  have p11: "filter hierarchy_skip (projr (seo_issues text)) = []"
    unfolding hierarchy_skip_kind by (rule filter_other_kind [OF kinds_seo]) (simp add: seo_kinds_def)
  have p12: "filter hierarchy_skip (projr (audience_issues text)) = []"
    unfolding hierarchy_skip_kind by (rule filter_other_kind [OF kinds_audience]) simp
  have p13: "filter hierarchy_skip (concat (map (\<lambda>(i, line). formatting_line_issues i line) (enumerate1 ?lines))) = []"
    unfolding hierarchy_skip_kind by (rule filter_other_kind [OF kinds_formatting]) simp
  have p14: "filter hierarchy_skip (concat (map (html_link_of text) (re_finditer href_pattern text [IGNORECASE]))) = []"
    unfolding hierarchy_skip_kind by (rule filter_other_kind [OF kinds_html_link]) (simp add: link_kinds_def)
  have p15: "filter hierarchy_skip (md_link_issues text) = []"
    unfolding hierarchy_skip_kind by (rule filter_other_kind [OF kinds_md_link]) (simp add: link_kinds_def)
  from p10 have n10: "filter hierarchy_skip (title_case_issues ?lines) = []"
    "filter hierarchy_skip (opening_issues ?lines) = []"
    "filter hierarchy_skip (article_length_issues text) = []"
    by simp_all
  show ?thesis
    unfolding all_issues_def Let_def filter_append p1 p2 p6 p7 p8 p9 p11 p12 p13 p14 p15
      skip_of_first skip_of_generic skip_of_skip
    using p0 n10 by simp
qed

lemma firsts_of_all:
  "filter first_heading_error (all_issues ct text) = first_issue (headings_of (split_on newline text))"
proof -
  let ?lines = "split_on newline text"
  have p0: "filter first_heading_error [alignment_issue] = []"
    unfolding first_heading_error_kind by (rule filter_other_kind [OF kinds_alignment]) simp
  have p1: "filter first_heading_error (concat (map (\<lambda>(i, line). style_line_issues i line) (enumerate1 ?lines))) = []"
    unfolding first_heading_error_kind by (rule filter_other_kind [OF kinds_style]) (simp add: style_kinds_def)
  have p2: "filter first_heading_error (image_issues text) = []"
    unfolding first_heading_error_kind by (rule filter_other_kind [OF kinds_image_exact]) simp
  have p6: "filter first_heading_error (projr (sentence_length_issues text)) = []"
    unfolding first_heading_error_kind by (rule filter_other_kind [OF kinds_sentence_length]) simp
  have p7: "filter first_heading_error (jargon_issues text) = []"
    unfolding first_heading_error_kind by (rule filter_other_kind [OF kinds_jargon]) simp
  have p8: "filter first_heading_error (concat (map (\<lambda>(i, line). terminology_line_issues i line) (enumerate1 ?lines))) = []"
    unfolding first_heading_error_kind by (rule filter_other_kind [OF kinds_terminology]) simp
  have p9: "filter first_heading_error (fst (abbr_scan ?lines)) = []"
    unfolding first_heading_error_kind by (rule filter_other_kind [OF kinds_abbr]) simp
  have p10: "filter first_heading_error (title_case_issues ?lines @ opening_issues ?lines @ article_length_issues text) = []"
    unfolding first_heading_error_kind by (rule filter_other_kind [OF kinds_news]) (simp add: news_kinds_def)
  have p11: "filter first_heading_error (projr (seo_issues text)) = []"
    unfolding first_heading_error_kind by (rule filter_other_kind [OF kinds_seo]) (simp add: seo_kinds_def)
  have p12: "filter first_heading_error (projr (audience_issues text)) = []"
    unfolding first_heading_error_kind by (rule filter_other_kind [OF kinds_audience]) simp
  have p13: "filter first_heading_error (concat (map (\<lambda>(i, line). formatting_line_issues i line) (enumerate1 ?lines))) = []"
    unfolding first_heading_error_kind by (rule filter_other_kind [OF kinds_formatting]) simp
  have p14: "filter first_heading_error (concat (map (html_link_of text) (re_finditer href_pattern text [IGNORECASE]))) = []"
    unfolding first_heading_error_kind by (rule filter_other_kind [OF kinds_html_link]) (simp add: link_kinds_def)
  have p15: "filter first_heading_error (md_link_issues text) = []"
    unfolding first_heading_error_kind by (rule filter_other_kind [OF kinds_md_link]) (simp add: link_kinds_def)
  from p10 have n10: "filter first_heading_error (title_case_issues ?lines) = []"
    "filter first_heading_error (opening_issues ?lines) = []"
    "filter first_heading_error (article_length_issues text) = []"
    by simp_all
  show ?thesis
    unfolding all_issues_def Let_def filter_append p1 p2 p6 p7 p8 p9 p11 p12 p13 p14 p15
      first_of_first first_of_generic first_of_skip
    using p0 n10 by simp
qed

definition level :: "heading \<Rightarrow> int" where
  "level h = fst (snd h)"

definition jumps :: "heading list \<Rightarrow> nat list" where
  \<comment> \<open>the positions of the headings more than one level below the heading before them\<close>
  "jumps hs = filter (\<lambda>idx. level (hs ! (idx - 1)) + 1 < level (hs ! idx)) [1..<length hs]"

lemma skip_issues_jumps:
  "skip_issues hs = map (\<lambda>idx. skip_issue (level (hs ! (idx - 1))) (level (hs ! idx)) (fst (hs ! idx))) (jumps hs)"
proof -
  have "concat (map (skip_at hs) xs)
      = map (\<lambda>idx. skip_issue (level (hs ! (idx - 1))) (level (hs ! idx)) (fst (hs ! idx)))
          (filter (\<lambda>idx. level (hs ! (idx - 1)) + 1 < level (hs ! idx)) xs)" for xs
    by (induction xs) (simp_all add: skip_at_def level_def Let_def)
  then show ?thesis by (simp add: skip_issues_def jumps_def)
qed


lemma upt_1_2: "[1..<2] = [1::nat]"
  by (simp add: upt_rec)

lemma upt_1_3: "[1..<3] = [1::nat, 2]"
  by (simp add: upt_rec)

lemma jumps_1_3:
  assumes "map level hs = [1, 3]"
  shows "skip_issues hs = [skip_issue 1 3 (fst (hs ! 1))]"
proof -
  from assms obtain h0 h1 where hs: "hs = [h0, h1]" and l: "level h0 = 1" "level h1 = 3"
    by auto
  then have "jumps hs = [1]" by (simp add: jumps_def upt_1_2)
  then show ?thesis using hs l by (simp add: skip_issues_jumps)
qed

lemma jumps_1_2_3:
  assumes "map level hs = [1, 2, 3]"
  shows "skip_issues hs = []"
proof -
  from assms obtain h0 h1 h2 where hs: "hs = [h0, h1, h2]" and l: "level h0 = 1" "level h1 = 2" "level h2 = 3"
    by auto
  then have "jumps hs = []" by (simp add: jumps_def upt_1_3)
  then show ?thesis by (simp add: skip_issues_jumps)
qed

lemma jumps_none:
  assumes "\<forall>idx. 0 < idx \<and> idx < length hs \<longrightarrow> level (hs ! idx) \<le> level (hs ! (idx - 1)) + 1"
  shows "jumps hs = []"
proof -
  have "\<not> level (hs ! (idx - 1)) + 1 < level (hs ! idx)" if "idx \<in> set [1..<length hs]" for idx
  proof -
    from that have "0 < idx \<and> idx < length hs" by simp
    with assms have "level (hs ! idx) \<le> level (hs ! (idx - 1)) + 1" by blast
    then show ?thesis by simp
  qed
  then show ?thesis unfolding jumps_def filter_empty_conv by blast
qed

text \<open>
  C5. Let \<open>hs\<close> be the headings the review collects, in order. When their levels are 1, 3
  the review returns exactly one hierarchy-skip ERROR, at the line of the level-3 heading;
  when they are 1, 2, 3 it returns none. When the first heading is not of level 1 the review
  returns the ERROR asking for an H1 at the line of that heading. When no heading is more
  than one level below the heading before it (it is above it, level with it, or one below),
  no hierarchy-skip issue is returned; in general there is one per such jump.
\<close>

theorem heading_hierarchy:
  assumes "review s text = Inr ((found, a), s')"
    and "collect_headings (split_on newline text) = Inr hs"
  shows "(map level hs = [1, 3] \<longrightarrow> filter hierarchy_skip found = [skip_issue 1 3 (fst (hs ! 1))])
       \<and> (map level hs = [1, 2, 3] \<longrightarrow> filter hierarchy_skip found = [])
       \<and> (hs \<noteq> [] \<and> level (hd hs) \<noteq> 1
            \<longrightarrow> filter first_heading_error found = [first_heading_issue (fst (hd hs))])
       \<and> ((\<forall>idx. 0 < idx \<and> idx < length hs \<longrightarrow> level (hs ! idx) \<le> level (hs ! (idx - 1)) + 1)
            \<longrightarrow> filter hierarchy_skip found = [])
       \<and> length (filter hierarchy_skip found) = length (jumps hs)"
proof -
  from assms(1) have f: "found = sort_issues (all_issues (content_type s) text)"
    unfolding review_eq by simp
  from assms(2) have hs: "headings_of (split_on newline text) = hs"
    unfolding collect_headings_eq by simp
  have sk: "filter hierarchy_skip found = sort_issues (skip_issues hs)"
    unfolding f sort_issues_filter skips_of_all hs ..
  have fi: "filter first_heading_error found = sort_issues (first_issue hs)"
    unfolding f sort_issues_filter firsts_of_all hs ..
  have 1: "map level hs = [1, 3] \<longrightarrow> filter hierarchy_skip found = [skip_issue 1 3 (fst (hs ! 1))]"
    unfolding sk by (rule impI) (simp add: jumps_1_3)
  have 2: "map level hs = [1, 2, 3] \<longrightarrow> filter hierarchy_skip found = []"
    unfolding sk by (rule impI) (simp add: jumps_1_2_3)
  have 3: "hs \<noteq> [] \<and> level (hd hs) \<noteq> 1
            \<longrightarrow> filter first_heading_error found = [first_heading_issue (fst (hd hs))]"
    unfolding fi by (cases hs) (simp_all add: first_issue_def level_def)
  have 4: "(\<forall>idx. 0 < idx \<and> idx < length hs \<longrightarrow> level (hs ! idx) \<le> level (hs ! (idx - 1)) + 1)
            \<longrightarrow> filter hierarchy_skip found = []"
    unfolding sk by (rule impI) (simp add: skip_issues_jumps jumps_none)
  have 5: "length (filter hierarchy_skip found) = length (jumps hs)"
    unfolding sk by (simp add: skip_issues_jumps)
  show ?thesis by (intro conjI; fact)
qed

definition doc_h1_h3 :: string where
  "doc_h1_h3 = ''# Title'' @ [newline] @ ''### Detail''"

definition doc_h1_h2_h3 :: string where
  "doc_h1_h2_h3 = ''# Title'' @ [newline] @ ''<h2>Part</h2>'' @ [newline] @ ''### Detail''"

definition doc_h2 :: string where
  "doc_h2 = ''text'' @ [newline] @ ''## Part''"

lemma example_headings:
  "collect_headings (split_on newline doc_h1_h3) = Inr [(1, 1, Some ''Title''), (2, 3, Some ''Detail'')]"
  "collect_headings (split_on newline doc_h1_h2_h3)
     = Inr [(1, 1, Some ''Title''), (2, 2, Some ''Part''), (3, 3, Some ''Detail'')]"
  "collect_headings (split_on newline doc_h2) = Inr [(2, 2, Some ''Part'')]"
  by code_simp+

theorem heading_hierarchy_witness:
  "(\<exists>found a s'. review (BillieJean_init UNKNOWN) doc_h1_h3 = Inr ((found, a), s')
      \<and> filter hierarchy_skip found = [skip_issue 1 3 2])
   \<and> (\<exists>found a s'. review (BillieJean_init UNKNOWN) doc_h1_h2_h3 = Inr ((found, a), s')
      \<and> filter hierarchy_skip found = [])
   \<and> (\<exists>found a s'. review (BillieJean_init UNKNOWN) doc_h2 = Inr ((found, a), s')
      \<and> filter first_heading_error found = [first_heading_issue 2]
      \<and> filter hierarchy_skip found = [])"
proof -
  obtain f1 a1 s1 where r1: "review (BillieJean_init UNKNOWN) doc_h1_h3 = Inr ((f1, a1), s1)"
    unfolding review_eq by simp
  obtain f2 a2 s2 where r2: "review (BillieJean_init UNKNOWN) doc_h1_h2_h3 = Inr ((f2, a2), s2)"
    unfolding review_eq by simp
  obtain f3 a3 s3 where r3: "review (BillieJean_init UNKNOWN) doc_h2 = Inr ((f3, a3), s3)"
    unfolding review_eq by simp
  note t1 = heading_hierarchy [OF r1 example_headings(1)]
  note t2 = heading_hierarchy [OF r2 example_headings(2)]
  note t3 = heading_hierarchy [OF r3 example_headings(3)]
  from t1 have c1: "filter hierarchy_skip f1 = [skip_issue 1 3 2]"
    by (simp add: level_def)
  from t2 have c2: "filter hierarchy_skip f2 = []"
    by (simp add: level_def)
  from t3 have c3: "filter first_heading_error f3 = [first_heading_issue 2]"
    "filter hierarchy_skip f3 = []"
    by (simp_all add: level_def)
  have e1: "\<exists>found a s'. review (BillieJean_init UNKNOWN) doc_h1_h3 = Inr ((found, a), s')
      \<and> filter hierarchy_skip found = [skip_issue 1 3 2]"
    using r1 c1 by blast
  have e2: "\<exists>found a s'. review (BillieJean_init UNKNOWN) doc_h1_h2_h3 = Inr ((found, a), s')
      \<and> filter hierarchy_skip found = []"
    using r2 c2 by blast
  have e3: "\<exists>found a s'. review (BillieJean_init UNKNOWN) doc_h2 = Inr ((found, a), s')
      \<and> filter first_heading_error found = [first_heading_issue 2]
      \<and> filter hierarchy_skip found = []"
    using r3 c3 by blast
  show ?thesis by (intro conjI; fact)
qed

section \<open>The review never raises\<close>

definition quiet_style_line :: "string \<Rightarrow> bool" where
  \<comment> \<open>the line holds nothing the style check looks for\<close>
  "quiet_style_line line \<longleftrightarrow>
     \<not> str_in ''world meteorological organization'' (lower line)
     \<and> list_all (\<lambda>sentence. length (split_ws sentence) \<le> 30) (re_split sentence_end line)
     \<and> list_all (\<lambda>(pattern, phrase). re_search pattern line [IGNORECASE] = None) passive_patterns
     \<and> list_all (\<lambda>(pattern, abbrev, full). re_search pattern (lower line) [] = None) abbrev_issues
     \<and> re_search italics_pattern line [] = None"

definition no_heading_line :: "string \<Rightarrow> bool" where
  "no_heading_line line \<longleftrightarrow>
     re_match md_heading_pattern line [] = None
     \<and> re_finditer html_heading_pattern line [IGNORECASE] = []"

definition no_term_line :: "string \<Rightarrow> bool" where
  "no_term_line line \<longleftrightarrow> list_all (\<lambda>(term, preferred, reason). \<not> str_in term (lower line)) terminology_guide"

definition no_abbreviation_line :: "string \<Rightarrow> bool" where
  "no_abbreviation_line line \<longleftrightarrow> list_all (\<lambda>(abbrev, full_form). \<not> str_in abbrev line) WMO_ABBREVIATIONS"

definition no_title_line :: "string \<Rightarrow> bool" where
  "no_title_line line \<longleftrightarrow>
     re_match md_title_pattern line [] = None \<and> re_search h1_pattern line [IGNORECASE] = None"

definition clean_format_line :: "string \<Rightarrow> bool" where
  "clean_format_line line \<longleftrightarrow> \<not> str_in ''  '' line \<and> re_search punctuation_pattern line [] = None"

definition missing_meta_issue :: ReviewIssue where
  "missing_meta_issue =
     \<lparr>category = ''SEO'', severity = WARNING, message = ''Missing meta description'',
      suggestion = ''Add meta description (150-160 characters) to improve search visibility'',
      line_number = 0, context = [], flagged_text = []\<rparr>"

lemma append_issues_Nil [simp]: "append_issues [] s = s"
  by (simp add: append_issues_def)

lemma enumerate1_elem:
  assumes "x \<in> set (enumerate1 lines)"
  obtains i line where "x = (i, line)" and "line \<in> set lines"
proof -
  obtain i line where x: "x = (i, line)" by (cases x)
  with assms have "line \<in> set lines" by (simp add: in_enumerate1)
  with x show thesis by (rule that)
qed

lemma concat_map_all_Nil:
  assumes "\<And>x. x \<in> set xs \<Longrightarrow> f x = []"
  shows "concat (map f xs) = []"
  using assms by (induction xs) simp_all

lemma quiet_style_line_issues:
  assumes "quiet_style_line line"
  shows "style_line_issues i line = []"
proof -
  from assms have 1: "capitalization_issues i line = []"
    by (simp add: quiet_style_line_def capitalization_issues_def)
  from assms have "list_all (\<lambda>sentence. length (split_ws sentence) \<le> 30) (re_split sentence_end line)"
    by (simp add: quiet_style_line_def)
  then have 2: "long_sentence_issues i line = []"
    unfolding long_sentence_issues_def
    by (intro concat_map_all_Nil) (auto simp: list_all_iff Let_def)
  from assms have "list_all (\<lambda>(pattern, phrase). re_search pattern line [IGNORECASE] = None) passive_patterns"
    by (simp add: quiet_style_line_def)
  then have "find (\<lambda>(pattern, phrase). re_search pattern line [IGNORECASE] \<noteq> None) passive_patterns = None"
    by (auto simp: find_None_iff list_all_iff)
  then have 3: "passive_issues i line = []"
    by (simp add: passive_issues_def)
  from assms have "list_all (\<lambda>(pattern, abbrev, full). re_search pattern (lower line) [] = None) abbrev_issues"
    by (simp add: quiet_style_line_def)
  then have 4: "informal_issues i line = []"
    unfolding informal_issues_def
    by (intro concat_map_all_Nil) (auto simp: list_all_iff)
  from assms have 5: "italics_issues i line = []"
    by (simp add: quiet_style_line_def italics_issues_def)
  show ?thesis by (simp add: style_line_issues_def 1 2 3 4 5)
qed

lemma quiet_style:
  assumes "list_all quiet_style_line (content_lines s)"
  shows "check_style_guide_compliance s = Inr s"
proof -
  have "concat (map (\<lambda>(i, line). style_line_issues i line) (enumerate1 (content_lines s))) = []"
  proof (rule concat_map_all_Nil)
    fix x assume "x \<in> set (enumerate1 (content_lines s))"
    then obtain i line where x: "x = (i, line)" and "line \<in> set (content_lines s)"
      by (rule enumerate1_elem)
    with assms show "(case x of (i, line) \<Rightarrow> style_line_issues i line) = []"
      by (simp add: list_all_iff quiet_style_line_issues)
  qed
  then show ?thesis unfolding check_style_guide_compliance_def by (simp only: append_issues_Nil)
qed

lemma no_headings:
  assumes "list_all no_heading_line lines"
  shows "collect_headings lines = Inr []"
proof -
  have "concat (map (\<lambda>(i, line). line_headings i line) (enumerate1 lines)) = []"
  proof (rule concat_map_all_Nil)
    fix x assume "x \<in> set (enumerate1 lines)"
    then obtain i line where x: "x = (i, line)" and "line \<in> set lines"
      by (rule enumerate1_elem)
    with assms have "no_heading_line line" by (simp add: list_all_iff)
    then show "(case x of (i, line) \<Rightarrow> line_headings i line) = []"
      unfolding x by (simp add: no_heading_line_def line_headings_def md_heading_of_def)
  qed
  then show ?thesis unfolding collect_headings_eq headings_of_def by (simp only:)
qed

lemma quiet_wcag:
  assumes "re_finditer img_pattern (content s) [IGNORECASE] = []"
    and "list_all no_heading_line (content_lines s)"
    and "re_finditer link_pattern (content s) [IGNORECASE] = []"
  shows "check_accessibility_wcag s = Inr s"
  using assms no_headings [OF assms(2)]
  by (simp add: check_accessibility_wcag_def image_issues_def generic_link_issues_def
      hierarchy_issues_def)

lemma quiet_readability:
  assumes "filter (\<lambda>x. strip x \<noteq> []) (re_split sentence_end (content s)) = []"
    and "list_all (\<lambda>term. \<not> str_in term (lower (content s))) technical_terms"
  shows "check_readability s = Inr s"
proof -
  from assms(1) have 1: "sentence_length_issues (content s) = Inr []"
    by (simp add: sentence_length_issues_def)
  from assms(2) have 2: "jargon_issues (content s) = []"
    unfolding jargon_issues_def Let_def
    by (intro concat_map_all_Nil) (auto simp: list_all_iff)
  show ?thesis by (simp add: check_readability_def 1 2)
qed

lemma quiet_terminology:
  assumes "list_all no_term_line (content_lines s)"
  shows "check_terminology s = Inr s"
proof -
  have "concat (map (\<lambda>(i, line). terminology_line_issues i line) (enumerate1 (content_lines s))) = []"
  proof (rule concat_map_all_Nil)
    fix x assume "x \<in> set (enumerate1 (content_lines s))"
    then obtain i line where x: "x = (i, line)" and "line \<in> set (content_lines s)"
      by (rule enumerate1_elem)
    with assms have "no_term_line line" by (simp add: list_all_iff)
    then have "terminology_line_issues i line = []"
      unfolding terminology_line_issues_def no_term_line_def
      by (intro concat_map_all_Nil) (auto simp: list_all_iff)
    then show "(case x of (i, line) \<Rightarrow> terminology_line_issues i line) = []"
      unfolding x by simp
  qed
  then show ?thesis unfolding check_terminology_def by (simp only: append_issues_Nil)
qed

lemma fold_unchanged:
  assumes "\<And>x. x \<in> set xs \<Longrightarrow> f x s = s"
  shows "fold f xs s = s"
  using assms by (induction xs) simp_all

lemma quiet_abbreviations:
  assumes "list_all no_abbreviation_line (content_lines s)"
  shows "check_abbreviations s = Inr s"
proof -
  have "fold (\<lambda>(i, line) s. fold (abbreviation_step i line) WMO_ABBREVIATIONS s)
          (enumerate1 (content_lines s)) s = s"
  proof (rule fold_unchanged)
    fix x assume "x \<in> set (enumerate1 (content_lines s))"
    then obtain i line where x: "x = (i, line)" and "line \<in> set (content_lines s)"
      by (rule enumerate1_elem)
    with assms have n: "no_abbreviation_line line" by (simp add: list_all_iff)
    have "fold (abbreviation_step i line) WMO_ABBREVIATIONS s = s"
    proof (rule fold_unchanged)
      fix p assume "p \<in> set WMO_ABBREVIATIONS"
      with n show "abbreviation_step i line p s = s"
        by (cases p) (auto simp: no_abbreviation_line_def list_all_iff abbreviation_step_def)
    qed
    then show "(case x of (i, line) \<Rightarrow> \<lambda>s. fold (abbreviation_step i line) WMO_ABBREVIATIONS s) s = s"
      unfolding x by simp
  qed
  then show ?thesis unfolding check_abbreviations_def by (simp only:)
qed


lemma quiet_news:
  assumes "list_all no_title_line (content_lines s)"
    and "list_all (\<lambda>line. length (split_ws line) \<le> 10) (take 20 (content_lines s))"
    and "length (split_ws (content s)) \<le> 800"
  shows "check_news_article_standards s = Inr s"
proof -
  have "find (\<lambda>(i, line). re_match md_title_pattern line [] \<noteq> None
                              \<or> re_search h1_pattern line [IGNORECASE] \<noteq> None)
             (enumerate1 (content_lines s)) = None"
    unfolding find_None_iff
  proof (intro notI, elim exE conjE)
    fix x assume xin: "x \<in> set (enumerate1 (content_lines s))"
      and m: "case x of (i, line) \<Rightarrow> re_match md_title_pattern line [] \<noteq> None
                              \<or> re_search h1_pattern line [IGNORECASE] \<noteq> None"
    from xin obtain i line where x: "x = (i, line)" and "line \<in> set (content_lines s)"
      by (rule enumerate1_elem)
    with assms(1) have "no_title_line line" by (simp add: list_all_iff)
    with m x show False by (simp add: no_title_line_def)
  qed
  then have 1: "title_case_issues (content_lines s) = []"
    by (simp add: title_case_issues_def)
  from assms(2) have "find (\<lambda>line. strip line \<noteq> [] \<and> \<not> startswith (strip line) ''#''
                         \<and> \<not> startswith (strip line) ''<'' \<and> 10 < length (split_ws line))
             (take 20 (content_lines s)) = None"
    unfolding find_None_iff by (auto simp: list_all_iff)
  then have 2: "opening_issues (content_lines s) = []"
    by (simp add: opening_issues_def)
  from assms(3) have 3: "article_length_issues (content s) = []"
    by (simp add: article_length_issues_def)
  show ?thesis by (simp add: check_news_article_standards_def 1 2 3)
qed

lemma quiet_seo:
  assumes "\<not> str_in ''<meta'' (lower (content s))"
    and "re_search meta_description_pattern (content s) [IGNORECASE] = None"
  shows "check_seo s = Inr s"
  using assms by (simp add: check_seo_def seo_issues_def)

lemma seo_reports_absence:
  assumes "str_in ''<meta'' (lower (content s))"
    and "re_search meta_description_pattern (content s) [IGNORECASE] = None"
  shows "check_seo s = Inr (append_issues [missing_meta_issue] s)"
  using assms by (simp add: check_seo_def seo_issues_def missing_meta_issue_def)

lemma small_literal: "\<not> fl (5 / 100) < 0"
  by code_simp

lemma fl_zero: "fl 0 = 0"
  by (simp add: fl_def)

lemma quiet_audience:
  assumes "re_finditer technical_word (lower (content s)) [] = []"
  shows "check_target_audience s = Inr s"
  using assms small_literal
  by (simp add: check_target_audience_def audience_issues_def truediv_def fl_zero Let_def)

lemma quiet_formatting:
  assumes "list_all clean_format_line (content_lines s)"
  shows "check_formatting s = Inr s"
proof -
  have "concat (map (\<lambda>(i, line). formatting_line_issues i line) (enumerate1 (content_lines s))) = []"
  proof (rule concat_map_all_Nil)
    fix x assume "x \<in> set (enumerate1 (content_lines s))"
    then obtain i line where x: "x = (i, line)" and "line \<in> set (content_lines s)"
      by (rule enumerate1_elem)
    with assms have "clean_format_line line" by (simp add: list_all_iff)
    then show "(case x of (i, line) \<Rightarrow> formatting_line_issues i line) = []"
      unfolding x by (simp add: clean_format_line_def formatting_line_issues_def)
  qed
  then show ?thesis unfolding check_formatting_def by (simp only: append_issues_Nil)
qed

lemma quiet_links:
  assumes "re_finditer href_pattern (content s) [IGNORECASE] = []"
    and "re_finditer md_link_pattern (content s) [] = []"
  shows "check_links_and_references s = Inr s"
  using assms by (simp add: check_links_and_references_def html_link_issues_def md_link_issues_def)

lemma no_keywords_alignment:
  assumes "list_all (\<lambda>(priority, keywords). \<not> keyword_found (lower (content s)) keywords) STRATEGIC_KEYWORDS"
    and "strategic_alignment s = StrategicAlignment_new"
  shows "check_strategic_alignment s = Inr (append_issues [alignment_issue] s)"
proof -
  have "fold (\<lambda>(priority, keywords) a.
            if keyword_found (lower (content s)) keywords then setattr_True priority a else a) ps a = a"
    if "list_all (\<lambda>(priority, keywords). \<not> keyword_found (lower (content s)) keywords) ps" for ps a
    using that by (induction ps) auto
  with assms(1) have sp: "scan_priorities (lower (content s)) (strategic_alignment s) = strategic_alignment s"
    unfolding scan_priorities_def by blast
  from assms(2) have e: "s\<lparr>strategic_alignment := StrategicAlignment_new\<rparr> = s"
    by (cases s) simp
  have "check_strategic_alignment s
      = Inr (append_issues [alignment_issue] (s\<lparr>strategic_alignment := StrategicAlignment_new\<rparr>))"
    using sp assms(2) by (simp add: check_strategic_alignment_def Let_def coverage_of_flags)
  then show ?thesis by (simp only: e)
qed

lemma alignment_iff_low_coverage:
  "check_strategic_alignment s =
     Inr (append_issues
            (if get_coverage (scan_priorities (lower (content s)) (strategic_alignment s)) < 20
             then [alignment_issue] else [])
            (s\<lparr>strategic_alignment := scan_priorities (lower (content s)) (strategic_alignment s)\<rparr>))"
  by (simp add: check_strategic_alignment_def Let_def)



definition empty_review :: BillieJean where
  "empty_review = start_review [] (BillieJean_init NEWS_ARTICLE)"

definition meta_review :: BillieJean where
  "meta_review = start_review ''<meta charset=x>'' (BillieJean_init UNKNOWN)"

lemma empty_review_quiet:
  "list_all quiet_style_line (content_lines empty_review)"
  "re_finditer img_pattern (content empty_review) [IGNORECASE] = []"
  "list_all no_heading_line (content_lines empty_review)"
  "re_finditer link_pattern (content empty_review) [IGNORECASE] = []"
  "filter (\<lambda>x. strip x \<noteq> []) (re_split sentence_end (content empty_review)) = []"
  "list_all (\<lambda>term. \<not> str_in term (lower (content empty_review))) technical_terms"
  "list_all no_term_line (content_lines empty_review)"
  "list_all no_abbreviation_line (content_lines empty_review)"
  "list_all no_title_line (content_lines empty_review)"
  "list_all (\<lambda>line. length (split_ws line) \<le> 10) (take 20 (content_lines empty_review))"
  "length (split_ws (content empty_review)) \<le> 800"
  "\<not> str_in ''<meta'' (lower (content empty_review))"
  "re_search meta_description_pattern (content empty_review) [IGNORECASE] = None"
  "re_finditer technical_word (lower (content empty_review)) [] = []"
  "list_all clean_format_line (content_lines empty_review)"
  "re_finditer href_pattern (content empty_review) [IGNORECASE] = []"
  "re_finditer md_link_pattern (content empty_review) [] = []"
  "list_all (\<lambda>(priority, keywords). \<not> keyword_found (lower (content empty_review)) keywords) STRATEGIC_KEYWORDS"
  "strategic_alignment empty_review = StrategicAlignment_new"
  by code_simp+

lemma meta_review_facts:
  "str_in ''<meta'' (lower (content meta_review))"
  "re_search meta_description_pattern (content meta_review) [IGNORECASE] = None"
  by code_simp+


end
